theory Spec2Isabelle
  imports Complex_Main "HOL-Library.Word"
begin

section \<open>The caller program of the EDL sample: data model\<close>

text \<open>
  The program in \<^verbatim>\<open>caller.cpp\<close> drives an e4 device through the EDL library
  (\<^verbatim>\<open>edl.h\<close>, not part of the repository's sources). The library is an
  external collaborator: its methods are parameters of the model (the record \<open>EDL\<close>
  below), acting on an opaque session state \<open>'d\<close>. Everything the program itself does
  (device calls, writes to \<^verbatim>\<open>data.dat\<close>, \<^verbatim>\<open>fclose\<close>, console output,
  \<^verbatim>\<open>Sleep\<close>) is recorded in an explicit world state that every function takes and
  returns. The functions of the program receive the \<^verbatim>\<open>EDL\<close> object by value; the
  copies are taken to act on the one session of the device, whose state is threaded
  through all the calls.
\<close>

type_synonym uint = "32 word" \<comment> \<open>\<^verbatim>\<open>unsigned int\<close>\<close>
type_synonym float = "32 word" \<comment> \<open>the bit pattern of a single-precision value\<close>
type_synonym byte = "8 word"

text \<open>
  \<^verbatim>\<open>EdlErrorCode_t\<close>: the three codes the program names; every other code of the
  library's enumeration is \<open>EdlOtherError\<close>.
\<close>

datatype EdlErrorCode =
    EdlSuccess
  | EdlDeviceNotConnectedError
  | EdlNotEnoughAvailableDataError
  | EdlOtherError nat

text \<open>
  \<^verbatim>\<open>EdlDeviceStatus_t\<close>, with the three fields the program reads. The packet count
  is an \<^verbatim>\<open>unsigned int\<close>, as the count that \<^verbatim>\<open>readData\<close> takes and returns.
\<close>

record EdlDeviceStatus =
  availableDataPackets :: uint
  bufferOverflowFlag :: bool
  lostDataFlag :: bool

text \<open>Command identifiers and the selector and button constants the program uses.\<close>

datatype EdlCommand =
    EdlCommandSamplingRate
  | EdlCommandRange
  | EdlCommandFinalBandwidth
  | EdlCommandMainTrial
  | EdlCommandVhold
  | EdlCommandVamp
  | EdlCommandTPeriod
  | EdlCommandApplyProtocol
  | EdlCommandCompAll

datatype radio =
    EDL_RADIO_SAMPLING_RATE_5_KHZ
  | EDL_RADIO_RANGE_200_PA
  | EDL_RADIO_FINAL_BANDWIDTH_SR_2
  | RadioOther nat

datatype button = EDL_BUTTON_PRESSED | EDL_BUTTON_RELEASED | ButtonOther nat

text \<open>
  \<^verbatim>\<open>EdlCommandStruct_t\<close>: one struct carrying every payload field at once. The field
  \<^verbatim>\<open>value\<close> is called \<open>cs_value\<close> here.
\<close>

record EdlCommandStruct =
  radioId :: radio
  cs_value :: real
  buttonPressed :: button

text \<open>The calls the device session observes, in the order the program issues them.\<close>

datatype edl_call =
    DetectDevices
  | ConnectDevice string
  | SetCommand EdlCommand EdlCommandStruct bool
  | PurgeData
  | GetDeviceStatus
  | ReadData uint
  | DisconnectDevice

fun apply_flag :: "edl_call \<Rightarrow> bool" where
  "apply_flag (SetCommand c p a) = a"
| "apply_flag call = False"

text \<open>What \<^verbatim>\<open>std::cout\<close> receives: string literals, numbers and \<^verbatim>\<open>std::endl\<close>.\<close>

datatype out_item = Str string | Num nat | Endl

text \<open>
  The methods of the \<^verbatim>\<open>EDL\<close> class. Reference parameters (\<^verbatim>\<open>devices\<close>,
  \<^verbatim>\<open>status\<close>, \<^verbatim>\<open>readPacketsNum\<close>, \<^verbatim>\<open>data\<close>) are returned as results, next
  to the error code and the new session state. The program discards the result of
  \<^verbatim>\<open>setCommand\<close>, so only its effect on the session is kept.
\<close>

record 'd EDL =
  detectDevices :: "'d \<Rightarrow> EdlErrorCode \<times> string list \<times> 'd"
  connectDevice :: "string \<Rightarrow> 'd \<Rightarrow> EdlErrorCode \<times> 'd"
  setCommand :: "EdlCommand \<Rightarrow> EdlCommandStruct \<Rightarrow> bool \<Rightarrow> 'd \<Rightarrow> 'd"
  purgeData :: "'d \<Rightarrow> EdlErrorCode \<times> 'd"
  getDeviceStatus :: "'d \<Rightarrow> EdlErrorCode \<times> EdlDeviceStatus \<times> 'd"
  readData :: "uint \<Rightarrow> 'd \<Rightarrow> EdlErrorCode \<times> uint \<times> float list \<times> 'd"
  disconnectDevice :: "'d \<Rightarrow> EdlErrorCode \<times> 'd"

text \<open>
  The world: the session state, the calls made on it so far, the bytes written to the
  output file, the number of \<^verbatim>\<open>fclose\<close> calls on it, the console output and the
  milliseconds spent in \<^verbatim>\<open>Sleep\<close>.
\<close>

record 'd world =
  dev :: 'd
  calls :: "edl_call list"
  sink :: "byte list"
  closes :: nat
  out :: "out_item list"
  slept :: nat

section \<open>Primitive effects\<close>

definition cout :: "out_item list \<Rightarrow> 'd world \<Rightarrow> 'd world" where
  "cout items w = w\<lparr>out := out w @ items\<rparr>"

definition Sleep :: "nat \<Rightarrow> 'd world \<Rightarrow> 'd world" where
  "Sleep ms w = w\<lparr>slept := slept w + ms\<rparr>"

text \<open>
  \<^verbatim>\<open>fopen("data.dat", "wb+")\<close> creates or truncates the file; the program does not
  check the result, and the model takes the stream as opened.
\<close>

definition fopen :: "'d world \<Rightarrow> 'd world" where
  "fopen w = w\<lparr>sink := []\<rparr>"

definition fclose :: "'d world \<Rightarrow> 'd world" where
  "fclose w = w\<lparr>closes := closes w + 1\<rparr>"

text \<open>
  The four bytes of a single-precision value in memory, least significant first (the
  program is a Windows program on a little-endian machine).
\<close>

definition float_bytes :: "float \<Rightarrow> byte list" where
  "float_bytes x = [ucast x, ucast (drop_bit 8 x), ucast (drop_bit 16 x), ucast (drop_bit 24 x)]"

text \<open>
  \<^verbatim>\<open>fwrite(ptr, sizeof(float), 1, f)\<close>: four bytes appended to the file. The program
  ignores the result of \<^verbatim>\<open>fwrite\<close>; the write is taken to succeed.
\<close>

definition fwrite :: "float \<Rightarrow> 'd world \<Rightarrow> 'd world" where
  "fwrite x w = w\<lparr>sink := sink w @ float_bytes x\<rparr>"

text \<open>
  \<^verbatim>\<open>std::vector::at\<close>: the checked access. \<open>None\<close> is the
  \<^verbatim>\<open>std::out_of_range\<close> exception, which nothing in the program catches.
\<close>

definition vector_at :: "'a list \<Rightarrow> nat \<Rightarrow> 'a option" where
  "vector_at xs i = (if i < length xs then Some (xs ! i) else None)"

text \<open>The device calls, each logged and threaded through the session state.\<close>

definition edl_detectDevices :: "'d EDL \<Rightarrow> 'd world \<Rightarrow> EdlErrorCode \<times> string list \<times> 'd world" where
  "edl_detectDevices edl w =
     (case detectDevices edl (dev w) of
        (res, devices, d) \<Rightarrow> (res, devices, w\<lparr>dev := d, calls := calls w @ [DetectDevices]\<rparr>))"

definition edl_connectDevice :: "'d EDL \<Rightarrow> string \<Rightarrow> 'd world \<Rightarrow> EdlErrorCode \<times> 'd world" where
  "edl_connectDevice edl name w =
     (case connectDevice edl name (dev w) of
        (res, d) \<Rightarrow> (res, w\<lparr>dev := d, calls := calls w @ [ConnectDevice name]\<rparr>))"

definition edl_setCommand ::
  "'d EDL \<Rightarrow> EdlCommand \<Rightarrow> EdlCommandStruct \<Rightarrow> bool \<Rightarrow> 'd world \<Rightarrow> 'd world" where
  "edl_setCommand edl c p a w =
     w\<lparr>dev := setCommand edl c p a (dev w), calls := calls w @ [SetCommand c p a]\<rparr>"

definition edl_purgeData :: "'d EDL \<Rightarrow> 'd world \<Rightarrow> EdlErrorCode \<times> 'd world" where
  "edl_purgeData edl w =
     (case purgeData edl (dev w) of
        (res, d) \<Rightarrow> (res, w\<lparr>dev := d, calls := calls w @ [PurgeData]\<rparr>))"

definition edl_getDeviceStatus ::
  "'d EDL \<Rightarrow> 'd world \<Rightarrow> EdlErrorCode \<times> EdlDeviceStatus \<times> 'd world" where
  "edl_getDeviceStatus edl w =
     (case getDeviceStatus edl (dev w) of
        (res, status, d) \<Rightarrow> (res, status, w\<lparr>dev := d, calls := calls w @ [GetDeviceStatus]\<rparr>))"

definition edl_readData ::
  "'d EDL \<Rightarrow> uint \<Rightarrow> 'd world \<Rightarrow> EdlErrorCode \<times> uint \<times> float list \<times> 'd world" where
  "edl_readData edl n w =
     (case readData edl n (dev w) of
        (res, readPacketsNum, data, d) \<Rightarrow>
          (res, readPacketsNum, data, w\<lparr>dev := d, calls := calls w @ [ReadData n]\<rparr>))"

definition edl_disconnectDevice :: "'d EDL \<Rightarrow> 'd world \<Rightarrow> EdlErrorCode \<times> 'd world" where
  "edl_disconnectDevice edl w =
     (case disconnectDevice edl (dev w) of
        (res, d) \<Rightarrow> (res, w\<lparr>dev := d, calls := calls w @ [DisconnectDevice]\<rparr>))"

section \<open>The configuration phases\<close>

text \<open>
  \<^verbatim>\<open>MINIMUM_DATA_PACKETS_TO_READ\<close> is defined in \<^verbatim>\<open>caller.cpp\<close>;
  \<^verbatim>\<open>EDL_CHANNEL_NUM\<close> comes from \<^verbatim>\<open>edl.h\<close> and is a parameter \<open>CH\<close> of the
  functions that use it, an \<^verbatim>\<open>unsigned int\<close> operand where the program computes
  with it. The declaration \<^verbatim>\<open>EdlCommandStruct_t commandStruct;\<close> leaves the initial
  content of the struct to the library's header: it is the parameter \<open>cs\<close>, the same in
  the three functions that declare such a struct.
\<close>

definition MINIMUM_DATA_PACKETS_TO_READ :: uint where
  "MINIMUM_DATA_PACKETS_TO_READ = 10"

definition configureWorkingModality :: "'d EDL \<Rightarrow> EdlCommandStruct \<Rightarrow> 'd world \<Rightarrow> 'd world" where
  "configureWorkingModality edl cs w =
     (let commandStruct = cs\<lparr>radioId := EDL_RADIO_SAMPLING_RATE_5_KHZ\<rparr>;
          w = edl_setCommand edl EdlCommandSamplingRate commandStruct False w;
          commandStruct = commandStruct\<lparr>radioId := EDL_RADIO_RANGE_200_PA\<rparr>;
          w = edl_setCommand edl EdlCommandRange commandStruct False w;
          commandStruct = commandStruct\<lparr>radioId := EDL_RADIO_FINAL_BANDWIDTH_SR_2\<rparr>
      in edl_setCommand edl EdlCommandFinalBandwidth commandStruct True w)"

definition compensateDigitalOffset :: "'d EDL \<Rightarrow> EdlCommandStruct \<Rightarrow> 'd world \<Rightarrow> 'd world" where
  "compensateDigitalOffset edl cs w =
     (let commandStruct = cs\<lparr>cs_value := 0\<rparr>;
          w = edl_setCommand edl EdlCommandMainTrial commandStruct False w;
          commandStruct = commandStruct\<lparr>cs_value := 0\<rparr>;
          w = edl_setCommand edl EdlCommandVhold commandStruct False w;
          w = edl_setCommand edl EdlCommandApplyProtocol commandStruct True w;
          commandStruct = commandStruct\<lparr>buttonPressed := EDL_BUTTON_PRESSED\<rparr>;
          w = edl_setCommand edl EdlCommandCompAll commandStruct True w;
          w = Sleep 5000 w;
          commandStruct = commandStruct\<lparr>buttonPressed := EDL_BUTTON_RELEASED\<rparr>
      in edl_setCommand edl EdlCommandCompAll commandStruct True w)"

definition setTriangularProtocol :: "'d EDL \<Rightarrow> EdlCommandStruct \<Rightarrow> 'd world \<Rightarrow> 'd world" where
  "setTriangularProtocol edl cs w =
     (let commandStruct = cs\<lparr>cs_value := 1\<rparr>;
          w = edl_setCommand edl EdlCommandMainTrial commandStruct False w;
          commandStruct = commandStruct\<lparr>cs_value := 0\<rparr>;
          w = edl_setCommand edl EdlCommandVhold commandStruct False w;
          commandStruct = commandStruct\<lparr>cs_value := 50\<rparr>;
          w = edl_setCommand edl EdlCommandVamp commandStruct False w;
          commandStruct = commandStruct\<lparr>cs_value := 100\<rparr>;
          w = edl_setCommand edl EdlCommandTPeriod commandStruct False w
      in edl_setCommand edl EdlCommandApplyProtocol commandStruct True w)"

section \<open>The acquisition step\<close>

text \<open>
  The two nested \<^verbatim>\<open>for\<close> loops that persist a batch. The index
  \<^verbatim>\<open>readPacketsIdx*EDL_CHANNEL_NUM+channelIdx\<close> is computed in \<^verbatim>\<open>unsigned int\<close>
  arithmetic and then passed to \<^verbatim>\<open>at\<close>. \<open>None\<close>: \<^verbatim>\<open>at\<close> threw.
\<close>

function channel_loop :: "uint \<Rightarrow> float list \<Rightarrow> uint \<Rightarrow> uint \<Rightarrow> 'd world \<Rightarrow> 'd world option" where
  "channel_loop CH data readPacketsIdx channelIdx w =
     (if channelIdx < CH then
        (case vector_at data (unat (readPacketsIdx * CH + channelIdx)) of
           None \<Rightarrow> None
         | Some x \<Rightarrow> channel_loop CH data readPacketsIdx (channelIdx + 1) (fwrite x w))
      else Some w)"
  by pat_completeness auto
termination
proof (relation "measure (\<lambda>(CH, data, p, c, w). unat CH - unat c)")
  fix CH c :: uint
  assume "c < CH"
  then have "unat CH - unat (c + 1) < unat CH - unat c"
    using unsigned_less [of CH, where 'a = nat]
    by (simp add: word_less_nat_alt unat_word_ariths)
  then show "((CH, data, p, c + 1, fwrite x w), (CH, data, p, c, w))
      \<in> measure (\<lambda>(CH, data, p, c, w). unat CH - unat c)"
    for data :: "float list" and p :: uint and x :: float and w :: "'a world"
    by simp
qed simp

function packet_loop :: "uint \<Rightarrow> float list \<Rightarrow> uint \<Rightarrow> uint \<Rightarrow> 'd world \<Rightarrow> 'd world option" where
  "packet_loop CH data readPacketsNum readPacketsIdx w =
     (if readPacketsIdx < readPacketsNum then
        (case channel_loop CH data readPacketsIdx 0 w of
           None \<Rightarrow> None
         | Some w' \<Rightarrow> packet_loop CH data readPacketsNum (readPacketsIdx + 1) w')
      else Some w)"
  by pat_completeness auto
termination
proof (relation "measure (\<lambda>(CH, data, n, p, w). unat n - unat p)")
  fix n p :: uint
  assume "p < n"
  then have "unat n - unat (p + 1) < unat n - unat p"
    using unsigned_less [of n, where 'a = nat]
    by (simp add: word_less_nat_alt unat_word_ariths)
  then show "((CH, data, n, p + 1, w'), (CH, data, n, p, w))
      \<in> measure (\<lambda>(CH, data, n, p, w). unat n - unat p)"
    for CH :: uint and data :: "float list" and w w' :: "'a world"
    by simp
qed simp

text \<open>
  One iteration of the poll-read loop (the body of the \<^verbatim>\<open>for\<close> at line 124).
  \<open>Continue res w\<close>: the body ran to its end, \<open>res\<close> being the value of the variable
  \<^verbatim>\<open>res\<close> then. \<open>Return res w\<close>: a \<^verbatim>\<open>return res\<close> inside the body.
  \<open>Throw\<close>: \<^verbatim>\<open>at\<close> threw, so the process is terminated.
\<close>

datatype 'd step = Continue EdlErrorCode "'d world" | Return EdlErrorCode "'d world" | Throw

definition iteration :: "'d EDL \<Rightarrow> uint \<Rightarrow> 'd world \<Rightarrow> 'd step" where
  "iteration edl CH w =
     (case edl_getDeviceStatus edl w of (res, status, w) \<Rightarrow>
        if res \<noteq> EdlSuccess then
          Return res (cout [Str ''failed to get device status'', Endl] w)
        else
          let w = (if bufferOverflowFlag status then
                     cout [Endl, Str ''lost some data due to buffer overflow; increase MINIMUM_DATA_PACKETS_TO_READ to improve performance'', Endl] w
                   else w);
              w = (if lostDataFlag status then
                     cout [Endl, Str ''lost some data from the device; decrease sampling frequency or close unused applications to improve performance'', Endl,
                           Str ''data loss may also occur immediately after sending a command to the device'', Endl] w
                   else w)
          in if availableDataPackets status \<ge> MINIMUM_DATA_PACKETS_TO_READ then
               (case edl_readData edl (availableDataPackets status) w of
                  (res, readPacketsNum, data, w) \<Rightarrow>
                    if res = EdlDeviceNotConnectedError then
                      Return res (fclose (cout [Str ''the device is not connected'', Endl] w))
                    else
                      let w = (if res = EdlNotEnoughAvailableDataError then
                                 cout [Str ''not enough available data, only '', Num (unat readPacketsNum),
                                       Str '' packets have been read'', Endl] w
                               else w)
                      in (case packet_loop CH data readPacketsNum 0 w of
                            None \<Rightarrow> Throw
                          | Some w \<Rightarrow> Continue res w))
             else Continue res (Sleep 1 w))"

text \<open>
  The \<^verbatim>\<open>for (c = 0; c < 1e3; c++)\<close> loop. The comparison converts \<^verbatim>\<open>c\<close> to
  \<^verbatim>\<open>double\<close>, which is exact, so it is \<open>c < 1000\<close>. \<open>Continue res w\<close> is
  the loop left by its condition.
\<close>

function poll_loop :: "'d EDL \<Rightarrow> uint \<Rightarrow> uint \<Rightarrow> EdlErrorCode \<Rightarrow> 'd world \<Rightarrow> 'd step" where
  "poll_loop edl CH c res w =
     (if c < 1000 then
        (case iteration edl CH w of
           Continue res w \<Rightarrow> poll_loop edl CH (c + 1) res w
         | Return res w \<Rightarrow> Return res w
         | Throw \<Rightarrow> Throw)
      else Continue res w)"
  by pat_completeness auto
termination
  by (relation "measure (\<lambda>(edl, CH, c, res, w). 1000 - unat c)")
     (auto simp: word_less_nat_alt unat_word_ariths)

text \<open>
  \<^verbatim>\<open>readAndSaveSomeData\<close>. \<open>None\<close>: the process was terminated by the uncaught
  exception of \<^verbatim>\<open>at\<close>.
\<close>

definition readAndSaveSomeData :: "'d EDL \<Rightarrow> uint \<Rightarrow> 'd world \<Rightarrow> (EdlErrorCode \<times> 'd world) option" where
  "readAndSaveSomeData edl CH w =
     (let w = Sleep 500 w;
          w = cout [Str ''purge old data'', Endl] w
      in case edl_purgeData edl w of (res, w) \<Rightarrow>
           if res \<noteq> EdlSuccess then
             Some (res, cout [Str ''failed to purge data'', Endl] w)
           else
             let w = cout [Str ''collecting data... ''] w
             in (case poll_loop edl CH 0 res w of
                   Continue res w \<Rightarrow> Some (res, cout [Str ''done'', Endl] w)
                 | Return res w \<Rightarrow> Some (res, w)
                 | Throw \<Rightarrow> None))"

section \<open>The disconnect phase and the entry point\<close>

text \<open>
  \<^verbatim>\<open>while (c++ < 1e3)\<close>: the old value of \<^verbatim>\<open>c\<close> is compared, then \<^verbatim>\<open>c\<close>
  is incremented.
\<close>

function disconnect_loop :: "'d EDL \<Rightarrow> uint \<Rightarrow> EdlErrorCode \<Rightarrow> 'd world \<Rightarrow> EdlErrorCode \<times> 'd world" where
  "disconnect_loop edl c res w =
     (if c < 1000 then
        (case edl_disconnectDevice edl w of (res, w) \<Rightarrow>
           if res = EdlSuccess then (res, cout [Str ''done'', Endl] w)
           else disconnect_loop edl (c + 1) res (Sleep 1 w))
      else (res, w))"
  by pat_completeness auto
termination
  by (relation "measure (\<lambda>(edl, c, res, w). 1000 - unat c)")
     (auto simp: word_less_nat_alt unat_word_ariths)

text \<open>
  Lines 249 to 268 of \<^verbatim>\<open>main\<close>: the disconnect phase, which gives the value
  \<^verbatim>\<open>main\<close> returns.
\<close>

definition disconnecting :: "'d EDL \<Rightarrow> EdlErrorCode \<Rightarrow> 'd world \<Rightarrow> int \<times> 'd world" where
  "disconnecting edl res w =
     (let w = cout [Str ''disconnecting... ''] w
      in case disconnect_loop edl 0 res w of (res, w) \<Rightarrow>
           if res \<noteq> EdlSuccess then (- 1, cout [Str ''disconnection error'', Endl] w)
           else (0, w))"

text \<open>
  \<^verbatim>\<open>main\<close>. The result is the returned value with the final world, or \<open>None\<close> when
  the process was terminated by an uncaught exception (\<^verbatim>\<open>devices.at(0)\<close> on an empty
  list, or \<^verbatim>\<open>data.at\<close> while persisting a batch).
\<close>

definition main :: "'d EDL \<Rightarrow> uint \<Rightarrow> EdlCommandStruct \<Rightarrow> 'd world \<Rightarrow> (int \<times> 'd world) option" where
  "main edl CH cs w =
     (case edl_detectDevices edl w of (res, devices, w) \<Rightarrow>
        if res \<noteq> EdlSuccess then
          Some (- 1, cout [Str ''could not detect devices'', Endl] w)
        else
          (case vector_at devices 0 of
             None \<Rightarrow> None
           | Some device \<Rightarrow>
               let w = cout [Str ''first device found '', Str device, Endl] w
               in case edl_connectDevice edl device w of (res, w) \<Rightarrow>
                    let w = cout [Str ''connecting... ''] w
                    in if res \<noteq> EdlSuccess then
                         Some (- 1, cout [Str ''connection error'', Endl] w)
                       else
                         let w = cout [Str ''done'', Endl] w;
                             w = cout [Str ''configuring working modality'', Endl] w;
                             w = configureWorkingModality edl cs w;
                             w = cout [Str ''performing digital offset compensation... ''] w;
                             w = compensateDigitalOffset edl cs w;
                             w = cout [Str ''done'', Endl] w;
                             w = cout [Str ''applying triangular test protocol'', Endl] w;
                             w = setTriangularProtocol edl cs w;
                             w = fopen w
                         in (case readAndSaveSomeData edl CH w of
                               None \<Rightarrow> None
                             | Some (res, w) \<Rightarrow>
                                 if res \<noteq> EdlSuccess then
                                   Some (- 1, cout [Str ''failed to read data'', Endl] w)
                                 else Some (disconnecting edl res (fclose w)))))"

section \<open>Notions used to state the properties\<close>

text \<open>
  The body of the poll-read loop run \<open>n\<close> times in a row, stopping at the first
  \<^verbatim>\<open>return\<close> or exception: the loop with its counter replaced by the number of
  iterations left (see \<open>poll_loop_iterations\<close> below).
\<close>

fun iterations :: "'d EDL \<Rightarrow> uint \<Rightarrow> nat \<Rightarrow> EdlErrorCode \<Rightarrow> 'd world \<Rightarrow> 'd step" where
  "iterations edl CH 0 res w = Continue res w"
| "iterations edl CH (Suc n) res w =
     (case iteration edl CH w of
        Continue res w \<Rightarrow> iterations edl CH n res w
      | Return res w \<Rightarrow> Return res w
      | Throw \<Rightarrow> Throw)"

text \<open>A world with its console output erased, to compare runs up to what they print.\<close>

definition mute :: "'d world \<Rightarrow> 'd world" where
  "mute w = w\<lparr>out := []\<rparr>"

fun mute_step :: "'d step \<Rightarrow> 'd step" where
  "mute_step (Continue res w) = Continue res (mute w)"
| "mute_step (Return res w) = Return res (mute w)"
| "mute_step Throw = Throw"

text \<open>The session state after \<open>i\<close> calls of \<^verbatim>\<open>disconnectDevice\<close> in a row on \<open>d\<close>.\<close>

fun after_disconnects :: "'d EDL \<Rightarrow> nat \<Rightarrow> 'd \<Rightarrow> 'd" where
  "after_disconnects edl 0 d = d"
| "after_disconnects edl (Suc i) d = after_disconnects edl i (snd (disconnectDevice edl d))"

section \<open>Concrete devices and inputs\<close>

text \<open>
  Stub sessions whose state counts the calls of \<^verbatim>\<open>getDeviceStatus\<close> (or of
  \<^verbatim>\<open>disconnectDevice\<close> in the sessions of the disconnect phase).
\<close>

definition w_init :: "nat world" where
  "w_init = \<lparr>dev = 0, calls = [], sink = [], closes = 0, out = [], slept = 0\<rparr>"

definition cs_init :: EdlCommandStruct where
  "cs_init = \<lparr>radioId = RadioOther 0, cs_value = 0, buttonPressed = ButtonOther 0\<rparr>"

text \<open>Every call succeeds; no packet is ever available.\<close>

definition edl_idle :: "nat EDL" where
  "edl_idle =
     \<lparr>detectDevices = (\<lambda>d. (EdlSuccess, [''e4''], d)),
      connectDevice = (\<lambda>name d. (EdlSuccess, d)),
      setCommand = (\<lambda>c p a d. d),
      purgeData = (\<lambda>d. (EdlSuccess, d)),
      getDeviceStatus = (\<lambda>d. (EdlSuccess,
         \<lparr>availableDataPackets = 0, bufferOverflowFlag = False, lostDataFlag = False\<rparr>, Suc d)),
      readData = (\<lambda>n d. (EdlSuccess, n, replicate (unat n * 8) 0x3F800000, d)),
      disconnectDevice = (\<lambda>d. (EdlSuccess, d))\<rparr>"

text \<open>
  Nothing is available during the first 999 polls; the 1000th poll reports 10 packets, and
  the read that follows returns 5 packets of 8 values with the insufficient-data code.
\<close>

definition edl_short :: "nat EDL" where
  "edl_short = edl_idle
     \<lparr>getDeviceStatus := (\<lambda>d. (EdlSuccess,
         \<lparr>availableDataPackets = (if d = 999 then 10 else 0),
          bufferOverflowFlag = False, lostDataFlag = False\<rparr>, Suc d)),
      readData := (\<lambda>n d. (EdlNotEnoughAvailableDataError, 5, replicate 40 0x3F800000, d))\<rparr>"

text \<open>
  As \<open>edl_short\<close>, but the poll that reports 10 packets is the first one: the read
  with insufficient data happens in the first iteration, and 999 idle iterations follow.
\<close>

definition edl_early :: "nat EDL" where
  "edl_early = edl_idle
     \<lparr>getDeviceStatus := (\<lambda>d. (EdlSuccess,
         \<lparr>availableDataPackets = (if d = 0 then 10 else 0),
          bufferOverflowFlag = False, lostDataFlag = False\<rparr>, Suc d)),
      readData := (\<lambda>n d. (EdlNotEnoughAvailableDataError, 5, replicate 40 0x3F800000, d))\<rparr>"

text \<open>Every poll reports 15 packets and every read returns all the packets asked for.\<close>

definition edl_full :: "nat EDL" where
  "edl_full = edl_idle
     \<lparr>getDeviceStatus := (\<lambda>d. (EdlSuccess,
         \<lparr>availableDataPackets = 15, bufferOverflowFlag = False, lostDataFlag = False\<rparr>, Suc d))\<rparr>"

text \<open>As \<open>edl_full\<close>, with both advisory flags set in every status.\<close>

definition edl_flagged :: "nat EDL" where
  "edl_flagged = edl_idle
     \<lparr>getDeviceStatus := (\<lambda>d. (EdlSuccess,
         \<lparr>availableDataPackets = 15, bufferOverflowFlag = True, lostDataFlag = True\<rparr>, Suc d))\<rparr>"

text \<open>Two idle polls, then 15 packets are reported and the read finds the device gone.\<close>

definition edl_unplugged :: "nat EDL" where
  "edl_unplugged = edl_idle
     \<lparr>getDeviceStatus := (\<lambda>d. (EdlSuccess,
         \<lparr>availableDataPackets = (if d = 2 then 15 else 0),
          bufferOverflowFlag = False, lostDataFlag = False\<rparr>, Suc d)),
      readData := (\<lambda>n d. (EdlDeviceNotConnectedError, 0, [], d))\<rparr>"

definition edl_purge_fails :: "nat EDL" where
  "edl_purge_fails = edl_idle\<lparr>purgeData := (\<lambda>d. (EdlOtherError 1, d))\<rparr>"

definition edl_status_fails :: "nat EDL" where
  "edl_status_fails = edl_idle
     \<lparr>getDeviceStatus := (\<lambda>d. (EdlOtherError 2,
         \<lparr>availableDataPackets = 0, bufferOverflowFlag = False, lostDataFlag = False\<rparr>, Suc d))\<rparr>"

text \<open>\<^verbatim>\<open>disconnectDevice\<close> fails \<open>j\<close> times, then succeeds; the state counts the attempts.\<close>

definition edl_stubborn :: "nat \<Rightarrow> nat EDL" where
  "edl_stubborn j = edl_idle
     \<lparr>disconnectDevice := (\<lambda>d. (if d < j then EdlOtherError 3 else EdlSuccess, Suc d))\<rparr>"

definition edl_stuck :: "nat EDL" where
  "edl_stuck = edl_idle\<lparr>disconnectDevice := (\<lambda>d. (EdlOtherError 3, Suc d))\<rparr>"


section \<open>Auxiliary facts\<close>

declare channel_loop.simps [simp del]
declare packet_loop.simps [simp del]
declare poll_loop.simps [simp del]
declare disconnect_loop.simps [simp del]

subsection \<open>The persisting loops\<close>

lemma unat_succ_less: "(c::uint) < k \<Longrightarrow> unat (c + 1) = Suc (unat c)"
  using unsigned_less [of k, where 'a = nat]
  by (simp add: word_less_nat_alt unat_word_ariths)

lemma length_float_bytes [simp]: "length (float_bytes x) = 4"
  by (simp add: float_bytes_def)

lemma channel_loop_eq:
  "c \<le> CH \<Longrightarrow> (\<forall>j. unat c \<le> j \<and> j < unat CH \<longrightarrow> unat (p * CH + of_nat j) < length data) \<Longrightarrow>
   channel_loop CH data p c w =
     Some (w\<lparr>sink := sink w @
        concat (map (\<lambda>j. float_bytes (data ! unat (p * CH + of_nat j))) [unat c..<unat CH])\<rparr>)"
proof (induction CH data p c w rule: channel_loop.induct)
  case (1 CH data p c w)
  show ?case
  proof (cases "c < CH")
    case True
    then have s: "unat (c + 1) = Suc (unat c)" by (rule unat_succ_less)
    from True have lt: "unat c < unat CH" by (simp add: word_less_nat_alt)
    have le: "c + 1 \<le> CH" using s lt by (simp add: word_le_nat_alt)
    have inb: "unat (p * CH + c) < length data"
      using "1.prems"(2) [rule_format, of "unat c"] lt by simp
    have at: "vector_at data (unat (p * CH + c)) = Some (data ! unat (p * CH + c))"
      using inb by (simp add: vector_at_def)
    have rest: "\<forall>j. unat (c + 1) \<le> j \<and> j < unat CH \<longrightarrow> unat (p * CH + of_nat j) < length data"
      using "1.prems"(2) s by auto
    have ih: "channel_loop CH data p (c + 1) (fwrite (data ! unat (p * CH + c)) w) =
      Some ((fwrite (data ! unat (p * CH + c)) w)\<lparr>sink := sink (fwrite (data ! unat (p * CH + c)) w) @
        concat (map (\<lambda>j. float_bytes (data ! unat (p * CH + of_nat j))) [unat (c + 1)..<unat CH])\<rparr>)"
      using "1.IH" [OF True at le rest] .
    have up: "[unat c..<unat CH] = unat c # [Suc (unat c)..<unat CH]"
      using lt by (simp add: upt_conv_Cons)
    show ?thesis
      using ih by (subst channel_loop.simps) (simp add: True at up s fwrite_def)
  next
    case False
    with "1.prems"(1) have "c = CH" by simp
    then show ?thesis
      by (subst channel_loop.simps) simp
  qed
qed


lemma unat_index:
  "unat (p * CH + of_nat j :: uint) = (unat p * unat CH + j) mod 2 ^ 32"
  by (simp add: unat_word_ariths unat_of_nat mod_simps)

lemma map_upt_shift: "map (\<lambda>j. f (a + j)) [0..<m] = map f [a..<a + m]"
proof -
  have "map f [a..<a + m] = map f (map (\<lambda>j. j + a) [0..<m])"
    by (simp add: map_add_upt add.commute)
  then show ?thesis by (simp add: comp_def add.commute)
qed

lemma channel_loop_frame:
  assumes "\<forall>k. unat p * unat CH \<le> k \<and> k < Suc (unat p) * unat CH \<longrightarrow> k mod 2 ^ 32 < length data"
  shows "channel_loop CH data p 0 w =
     Some (w\<lparr>sink := sink w @
        concat (map (\<lambda>k. float_bytes (data ! (k mod 2 ^ 32))) [unat p * unat CH..<Suc (unat p) * unat CH])\<rparr>)"
proof -
  have inb: "\<forall>j. unat (0::uint) \<le> j \<and> j < unat CH \<longrightarrow> unat (p * CH + of_nat j) < length data"
  proof (intro allI impI)
    fix j assume "unat (0::uint) \<le> j \<and> j < unat CH"
    then have "unat p * unat CH \<le> unat p * unat CH + j \<and> unat p * unat CH + j < Suc (unat p) * unat CH"
      by simp
    with assms have "(unat p * unat CH + j) mod 2 ^ 32 < length data" by blast
    then show "unat (p * CH + of_nat j) < length data" by (simp only: unat_index)
  qed
  have "map (\<lambda>j. float_bytes (data ! unat (p * CH + of_nat j))) [0..<unat CH] =
        map (\<lambda>j. float_bytes (data ! ((unat p * unat CH + j) mod 2 ^ 32))) [0..<unat CH]"
    by (simp only: unat_index)
  also have "\<dots> = map (\<lambda>k. float_bytes (data ! (k mod 2 ^ 32))) [unat p * unat CH..<unat p * unat CH + unat CH]"
    by (rule map_upt_shift)
  finally have m: "map (\<lambda>j. float_bytes (data ! unat (p * CH + of_nat j))) [0..<unat CH] =
     map (\<lambda>k. float_bytes (data ! (k mod 2 ^ 32))) [unat p * unat CH..<Suc (unat p) * unat CH]"
    by (simp add: add.commute)
  show ?thesis
    using channel_loop_eq [of 0 CH p data w, OF _ inb] m by simp
qed

lemma packet_loop_eq:
  "p \<le> n \<Longrightarrow>
   (\<forall>k. unat p * unat CH \<le> k \<and> k < unat n * unat CH \<longrightarrow> k mod 2 ^ 32 < length data) \<Longrightarrow>
   packet_loop CH data n p w =
     Some (w\<lparr>sink := sink w @
        concat (map (\<lambda>k. float_bytes (data ! (k mod 2 ^ 32))) [unat p * unat CH..<unat n * unat CH])\<rparr>)"
proof (induction CH data n p w rule: packet_loop.induct)
  case (1 CH data n p w)
  show ?case
  proof (cases "p < n")
    case True
    then have s: "unat (p + 1) = Suc (unat p)" by (rule unat_succ_less)
    from True have lt: "unat p < unat n" by (simp add: word_less_nat_alt)
    have le: "p + 1 \<le> n" using s lt by (simp add: word_le_nat_alt)
    have mono: "Suc (unat p) * unat CH \<le> unat n * unat CH"
      using lt by (intro mult_le_mono1) simp
    have here: "\<forall>k. unat p * unat CH \<le> k \<and> k < Suc (unat p) * unat CH \<longrightarrow> k mod 2 ^ 32 < length data"
      using "1.prems"(2) mono by (meson less_le_trans)
    have rest: "\<forall>k. unat (p + 1) * unat CH \<le> k \<and> k < unat n * unat CH \<longrightarrow> k mod 2 ^ 32 < length data"
      using "1.prems"(2) s by (metis le_add2 le_trans mult_Suc)
    let ?w = "w\<lparr>sink := sink w @
        concat (map (\<lambda>k. float_bytes (data ! (k mod 2 ^ 32))) [unat p * unat CH..<Suc (unat p) * unat CH])\<rparr>"
    have ch: "channel_loop CH data p 0 w = Some ?w"
      by (rule channel_loop_frame [OF here])
    have ih: "packet_loop CH data n (p + 1) ?w =
      Some (?w\<lparr>sink := sink ?w @
        concat (map (\<lambda>k. float_bytes (data ! (k mod 2 ^ 32))) [unat (p + 1) * unat CH..<unat n * unat CH])\<rparr>)"
      by (rule "1.IH" [OF True ch le rest])
    have split: "[unat p * unat CH..<unat n * unat CH] =
        [unat p * unat CH..<Suc (unat p) * unat CH] @ [Suc (unat p) * unat CH..<unat n * unat CH]"
      using mono by (metis le_add2 le_Suc_ex mult_Suc upt_add_eq_append)
    show ?thesis
      using ih by (subst packet_loop.simps) (simp add: True ch s split)
  next
    case False
    with "1.prems"(1) have "p = n" by simp
    then show ?thesis
      by (subst packet_loop.simps) simp
  qed
qed


lemma packet_loop_full:
  assumes "unat n * unat CH \<le> length data"
  shows "packet_loop CH data n 0 w =
     Some (w\<lparr>sink := sink w @
        concat (map (\<lambda>k. float_bytes (data ! (k mod 2 ^ 32))) [0..<unat n * unat CH])\<rparr>)"
proof -
  have "\<forall>k. unat (0::uint) * unat CH \<le> k \<and> k < unat n * unat CH \<longrightarrow> k mod 2 ^ 32 < length data"
    using assms by (meson less_le_trans mod_less_eq_dividend le_less_trans)
  from packet_loop_eq [of 0 n CH data w, OF _ this] show ?thesis by simp
qed

lemma length_concat_float_bytes:
  "length (concat (map (\<lambda>k. float_bytes (f k)) ks)) = 4 * length ks"
  by (induction ks) simp_all

lemma map_nth_take: "m \<le> length xs \<Longrightarrow> map (\<lambda>k. xs ! k) [0..<m] = take m xs"
  by (simp add: list_eq_iff_nth_eq)

lemma map_mod_upt:
  "m \<le> 2 ^ 32 \<Longrightarrow> map (\<lambda>k. g (k mod 2 ^ 32)) [0..<m] = map g [0..<(m::nat)]"
  by (rule map_cong) auto



subsection \<open>Runs up to the console output\<close>

lemma cout_fields [simp]:
  "dev (cout items w) = dev w" "calls (cout items w) = calls w" "sink (cout items w) = sink w"
  "closes (cout items w) = closes w" "slept (cout items w) = slept w"
  "out (cout items w) = out w @ items"
  by (simp_all add: cout_def)

lemma mute_cout [simp]: "mute (cout items w) = mute w"
  by (simp add: mute_def cout_def)

lemma mute_Sleep [simp]: "mute (Sleep ms w) = Sleep ms (mute w)"
  by (simp add: mute_def Sleep_def)

lemma mute_fclose [simp]: "mute (fclose w) = fclose (mute w)"
  by (simp add: mute_def fclose_def)

lemma mute_fwrite [simp]: "mute (fwrite x w) = fwrite x (mute w)"
  by (simp add: mute_def fwrite_def)

lemma mute_mute [simp]: "mute (mute w) = mute w"
  by (simp add: mute_def)

lemma mute_fields [simp]:
  "dev (mute w) = dev w" "calls (mute w) = calls w" "sink (mute w) = sink w"
  "closes (mute w) = closes w" "slept (mute w) = slept w" "out (mute w) = []"
  by (simp_all add: mute_def)

lemma mute_update [simp]:
  "mute (w\<lparr>dev := d\<rparr>) = (mute w)\<lparr>dev := d\<rparr>"
  "mute (w\<lparr>calls := cs\<rparr>) = (mute w)\<lparr>calls := cs\<rparr>"
  "mute (w\<lparr>sink := bs\<rparr>) = (mute w)\<lparr>sink := bs\<rparr>"
  by (simp_all add: mute_def)

lemma channel_loop_mute:
  "channel_loop CH data p c (mute w) = map_option mute (channel_loop CH data p c w)"
proof (induction CH data p c w rule: channel_loop.induct)
  case (1 CH data p c w)
  show ?case
  proof (cases "c < CH")
    case True
    show ?thesis
    proof (cases "vector_at data (unat (p * CH + c))")
      case None
      then show ?thesis
        by (simp add: channel_loop.simps [of CH data p c] True)
    next
      case (Some x)
      from "1.IH" [OF True Some] Some show ?thesis
        by (simp add: channel_loop.simps [of CH data p c] True)
    qed
  next
    case False
    then show ?thesis
      by (simp add: channel_loop.simps [of CH data p c])
  qed
qed

lemma packet_loop_mute:
  "packet_loop CH data n p (mute w) = map_option mute (packet_loop CH data n p w)"
proof (induction CH data n p w rule: packet_loop.induct)
  case (1 CH data n p w)
  show ?case
  proof (cases "p < n")
    case True
    show ?thesis
    proof (cases "channel_loop CH data p 0 w")
      case None
      then show ?thesis
        by (simp add: packet_loop.simps [of CH data n p] True channel_loop_mute)
    next
      case (Some w')
      from "1.IH" [OF True Some] Some show ?thesis
        by (simp add: packet_loop.simps [of CH data n p] True channel_loop_mute)
    qed
  next
    case False
    then show ?thesis
      by (simp add: packet_loop.simps [of CH data n p])
  qed
qed

lemma mute_step_persist:
  "mute_step (case x of None \<Rightarrow> Throw | Some v \<Rightarrow> Continue r v) =
   (case map_option mute x of None \<Rightarrow> Throw | Some v \<Rightarrow> Continue r v)"
  by (cases x) simp_all

lemma mute_iteration:
  assumes g: "getDeviceStatus edl (dev w) = (r, s, d1)"
  shows "mute_step (iteration edl CH w) =
     (if r \<noteq> EdlSuccess then
        Return r ((mute w)\<lparr>dev := d1, calls := calls w @ [GetDeviceStatus]\<rparr>)
      else if MINIMUM_DATA_PACKETS_TO_READ \<le> availableDataPackets s then
        (case readData edl (availableDataPackets s) d1 of (rr, n, data, d2) \<Rightarrow>
           if rr = EdlDeviceNotConnectedError then
             Return rr (fclose ((mute w)\<lparr>dev := d2,
               calls := calls w @ [GetDeviceStatus, ReadData (availableDataPackets s)]\<rparr>))
           else
             (case packet_loop CH data n 0 ((mute w)\<lparr>dev := d2,
                     calls := calls w @ [GetDeviceStatus, ReadData (availableDataPackets s)]\<rparr>) of
                None \<Rightarrow> Throw
              | Some v \<Rightarrow> Continue rr v))
      else Continue r (Sleep 1 ((mute w)\<lparr>dev := d1, calls := calls w @ [GetDeviceStatus]\<rparr>)))"
proof (cases "r = EdlSuccess")
  case False
  then show ?thesis
    by (simp add: iteration_def edl_getDeviceStatus_def g)
next
  case True
  note ok = True
  obtain rr n data d2 where rd: "readData edl (availableDataPackets s) d1 = (rr, n, data, d2)"
    by (cases "readData edl (availableDataPackets s) d1") auto
  show ?thesis
  proof (cases "MINIMUM_DATA_PACKETS_TO_READ \<le> availableDataPackets s")
    case False
    then show ?thesis
      by (cases "bufferOverflowFlag s"; cases "lostDataFlag s")
         (simp_all add: iteration_def edl_getDeviceStatus_def g ok Let_def)
  next
    case True
    note enough = True
    show ?thesis
    proof (cases "rr = EdlDeviceNotConnectedError")
      case True
      then show ?thesis
        by (cases "bufferOverflowFlag s"; cases "lostDataFlag s")
           (simp_all add: iteration_def edl_getDeviceStatus_def edl_readData_def g ok enough rd Let_def)
    next
      case False
      then show ?thesis
        by (cases "bufferOverflowFlag s"; cases "lostDataFlag s";
            cases "rr = EdlNotEnoughAvailableDataError")
           (simp_all add: iteration_def edl_getDeviceStatus_def edl_readData_def g ok enough rd
              Let_def mute_step_persist packet_loop_mute [symmetric])
    qed
  qed
qed


lemma mute_eq_fields:
  assumes "mute w2 = mute w1"
  shows "dev w2 = dev w1" "calls w2 = calls w1" "sink w2 = sink w1"
    "closes w2 = closes w1" "slept w2 = slept w1"
  using assms mute_fields by metis+

lemma iteration_cong:
  assumes res: "\<And>d. fst (getDeviceStatus edl2 d) = fst (getDeviceStatus edl1 d)"
    and avail: "\<And>d. availableDataPackets (fst (snd (getDeviceStatus edl2 d))) =
                  availableDataPackets (fst (snd (getDeviceStatus edl1 d)))"
    and next_state: "\<And>d. snd (snd (getDeviceStatus edl2 d)) = snd (snd (getDeviceStatus edl1 d))"
    and reads: "readData edl2 = readData edl1"
    and w: "mute w2 = mute w1"
  shows "mute_step (iteration edl2 CH w2) = mute_step (iteration edl1 CH w1)"
proof -
  obtain r s1 d1 where g1: "getDeviceStatus edl1 (dev w1) = (r, s1, d1)"
    by (cases "getDeviceStatus edl1 (dev w1)") auto
  obtain r2 s2 d2 where g2: "getDeviceStatus edl2 (dev w1) = (r2, s2, d2)"
    by (cases "getDeviceStatus edl2 (dev w1)") auto
  have r2: "r2 = r" using res [of "dev w1"] g1 g2 by simp
  have d2: "d2 = d1" using next_state [of "dev w1"] g1 g2 by simp
  have a2: "availableDataPackets s2 = availableDataPackets s1"
    using avail [of "dev w1"] g1 g2 by simp
  have g2': "getDeviceStatus edl2 (dev w2) = (r, s2, d1)"
    using g2 r2 d2 mute_eq_fields(1) [OF w] by simp
  show ?thesis
    by (simp only: mute_iteration [OF g1] mute_iteration [OF g2'] a2 reads w
        mute_eq_fields(2) [OF w])
qed

lemma iterations_cong:
  assumes res: "\<And>d. fst (getDeviceStatus edl2 d) = fst (getDeviceStatus edl1 d)"
    and avail: "\<And>d. availableDataPackets (fst (snd (getDeviceStatus edl2 d))) =
                  availableDataPackets (fst (snd (getDeviceStatus edl1 d)))"
    and next_state: "\<And>d. snd (snd (getDeviceStatus edl2 d)) = snd (snd (getDeviceStatus edl1 d))"
    and reads: "readData edl2 = readData edl1"
  shows "mute w2 = mute w1 \<Longrightarrow>
    mute_step (iterations edl2 CH n r w2) = mute_step (iterations edl1 CH n r w1)"
proof (induction n arbitrary: r w1 w2)
  case 0
  then show ?case by simp
next
  case (Suc n)
  have step: "mute_step (iteration edl2 CH w2) = mute_step (iteration edl1 CH w1)"
    by (rule iteration_cong [OF res avail next_state reads Suc.prems])
  show ?case
  proof (cases "iteration edl1 CH w1")
    case (Continue r1 v1)
    with step obtain v2 where c2: "iteration edl2 CH w2 = Continue r1 v2" and v: "mute v2 = mute v1"
      by (cases "iteration edl2 CH w2") auto
    from Suc.IH [OF v] Continue c2 show ?thesis by simp
  next
    case (Return r1 v1)
    with step obtain v2 where c2: "iteration edl2 CH w2 = Return r1 v2" and v: "mute v2 = mute v1"
      by (cases "iteration edl2 CH w2") auto
    with Return show ?thesis by simp
  next
    case Throw
    with step have "iteration edl2 CH w2 = Throw"
      by (cases "iteration edl2 CH w2") auto
    with Throw show ?thesis by simp
  qed
qed

lemma poll_loop_iterations:
  "unat c \<le> 1000 \<Longrightarrow> poll_loop edl CH c res w = iterations edl CH (1000 - unat c) res w"
proof (induction edl CH c res w rule: poll_loop.induct)
  case (1 edl CH c res w)
  show ?case
  proof (cases "c < 1000")
    case True
    then have s: "unat (c + 1) = Suc (unat c)" by (rule unat_succ_less)
    from True have lt: "unat c < 1000" by (simp add: word_less_nat_alt)
    then have n: "1000 - unat c = Suc (1000 - unat (c + 1))" using s by simp
    have le: "unat (c + 1) \<le> 1000" using s lt by simp
    show ?thesis
    proof (cases "iteration edl CH w")
      case (Continue r v)
      from "1.IH" [OF True Continue le] Continue show ?thesis
        by (subst poll_loop.simps) (simp add: True n)
    next
      case (Return r v)
      then show ?thesis
        by (subst poll_loop.simps) (simp add: True n)
    next
      case Throw
      then show ?thesis
        by (subst poll_loop.simps) (simp add: True n)
    qed
  next
    case False
    then have "unat c = 1000" using "1.prems" by (simp add: word_less_nat_alt)
    with False show ?thesis
      by (subst poll_loop.simps) simp
  qed
qed

lemma iterations_add:
  "iterations edl CH (m + n) res w =
     (case iterations edl CH m res w of
        Continue r v \<Rightarrow> iterations edl CH n r v
      | Return r v \<Rightarrow> Return r v
      | Throw \<Rightarrow> Throw)"
  by (induction m arbitrary: res w) (simp_all split: step.splits)

lemma mute_step_Continue:
  "mute_step x = Continue r v \<Longrightarrow> \<exists>w'. x = Continue r w' \<and> mute w' = v"
  by (cases x) auto

lemma mute_step_Return:
  "mute_step x = Return r v \<Longrightarrow> \<exists>w'. x = Return r w' \<and> mute w' = v"
  by (cases x) auto

lemma mute_iterations_Suc:
  "mute_step (iterations edl CH (Suc n) res w) =
     (case mute_step (iteration edl CH w) of
        Continue r v \<Rightarrow> mute_step (iterations edl CH n r v)
      | Return r v \<Rightarrow> Return r v
      | Throw \<Rightarrow> Throw)"
proof (cases "iteration edl CH w")
  case (Continue r v)
  have "mute_step (iterations edl CH n r (mute v)) = mute_step (iterations edl CH n r v)"
    by (rule iterations_cong) simp_all
  with Continue show ?thesis by simp
qed simp_all

lemma Sleep_fields [simp]:
  "dev (Sleep ms w) = dev w" "calls (Sleep ms w) = calls w" "sink (Sleep ms w) = sink w"
  "closes (Sleep ms w) = closes w" "slept (Sleep ms w) = slept w + ms" "out (Sleep ms w) = out w"
  by (simp_all add: Sleep_def)

lemma fclose_fields [simp]:
  "dev (fclose w) = dev w" "calls (fclose w) = calls w" "sink (fclose w) = sink w"
  "closes (fclose w) = closes w + 1" "slept (fclose w) = slept w" "out (fclose w) = out w"
  by (simp_all add: fclose_def)

lemma iterations_idle:
  fixes w :: "nat world"
  assumes "\<forall>i<n. \<exists>s. getDeviceStatus edl (dev w + i) = (EdlSuccess, s, Suc (dev w + i)) \<and>
             availableDataPackets s < MINIMUM_DATA_PACKETS_TO_READ"
  shows "mute_step (iterations edl CH n r w) =
     Continue (if n = 0 then r else EdlSuccess)
       ((mute w)\<lparr>dev := dev w + n, calls := calls w @ replicate n GetDeviceStatus,
                 slept := slept w + n\<rparr>)"
  using assms
proof (induction n arbitrary: r w)
  case 0
  then show ?case by simp
next
  case (Suc n)
  from Suc.prems obtain s where
    g: "getDeviceStatus edl (dev w) = (EdlSuccess, s, Suc (dev w))"
    and a: "availableDataPackets s < MINIMUM_DATA_PACKETS_TO_READ"
    by (metis add.right_neutral zero_less_Suc)
  let ?v = "Sleep 1 ((mute w)\<lparr>dev := Suc (dev w), calls := calls w @ [GetDeviceStatus]\<rparr>)"
  have it: "mute_step (iteration edl CH w) = Continue EdlSuccess ?v"
    using a by (simp add: mute_iteration [OF g] not_le [symmetric])
  have rest: "\<forall>i<n. \<exists>s. getDeviceStatus edl (dev ?v + i) = (EdlSuccess, s, Suc (dev ?v + i)) \<and>
             availableDataPackets s < MINIMUM_DATA_PACKETS_TO_READ"
  proof (intro allI impI)
    fix i assume "i < n"
    then have "Suc i < Suc n" by simp
    with Suc.prems obtain s where "getDeviceStatus edl (dev w + Suc i) = (EdlSuccess, s, Suc (dev w + Suc i)) \<and>
             availableDataPackets s < MINIMUM_DATA_PACKETS_TO_READ" by blast
    then show "\<exists>s. getDeviceStatus edl (dev ?v + i) = (EdlSuccess, s, Suc (dev ?v + i)) \<and>
             availableDataPackets s < MINIMUM_DATA_PACKETS_TO_READ" by auto
  qed
  have "mute_step (iterations edl CH (Suc n) r w) = mute_step (iterations edl CH n EdlSuccess ?v)"
    by (simp only: mute_iterations_Suc it step.simps)
  also have "\<dots> =
     Continue (if n = 0 then EdlSuccess else EdlSuccess)
       ((mute ?v)\<lparr>dev := dev ?v + n, calls := calls ?v @ replicate n GetDeviceStatus,
                 slept := slept ?v + n\<rparr>)"
    by (rule Suc.IH [OF rest])
  finally show ?case
    by (simp add: Sleep_def mute_def)
qed

lemma edl_setCommand_fields [simp]:
  "dev (edl_setCommand edl c p a w) = setCommand edl c p a (dev w)"
  "calls (edl_setCommand edl c p a w) = calls w @ [SetCommand c p a]"
  "sink (edl_setCommand edl c p a w) = sink w"
  "closes (edl_setCommand edl c p a w) = closes w"
  "slept (edl_setCommand edl c p a w) = slept w"
  "out (edl_setCommand edl c p a w) = out w"
  by (simp_all add: edl_setCommand_def)

lemma fopen_fields [simp]:
  "dev (fopen w) = dev w" "calls (fopen w) = calls w" "sink (fopen w) = []"
  "closes (fopen w) = closes w" "slept (fopen w) = slept w" "out (fopen w) = out w"
  by (simp_all add: fopen_def)

lemma main_reaches_acquisition:
  assumes det: "detectDevices edl (dev w) = (EdlSuccess, name # names, d1)"
    and con: "connectDevice edl name d1 = (EdlSuccess, d2)"
    and set: "\<And>c p a d. setCommand edl c p a d = d"
  shows "\<exists>W. main edl CH cs w =
      (case readAndSaveSomeData edl CH W of
         None \<Rightarrow> None
       | Some (res, w') \<Rightarrow>
           if res \<noteq> EdlSuccess then Some (- 1, cout [Str ''failed to read data'', Endl] w')
           else Some (disconnecting edl res (fclose w'))) \<and>
      dev W = d2 \<and> closes W = closes w \<and> sink W = []"
  unfolding main_def
  apply (simp add: edl_detectDevices_def det vector_at_def edl_connectDevice_def con Let_def
      del: ex_simps)
  apply (rule exI)
  apply (rule conjI)
   apply (rule refl)
  apply (simp add: configureWorkingModality_def compensateDigitalOffset_def
      setTriangularProtocol_def Let_def set)
  done

lemma packet_loop_take:
  assumes "unat n * unat CH \<le> length data" and nowrap: "unat n * unat CH \<le> 2 ^ 32"
  shows "packet_loop CH data n 0 w =
       Some (w\<lparr>sink := sink w @ concat (map float_bytes (take (unat n * unat CH) data))\<rparr>)"
proof -
  let ?m = "unat n * unat CH"
  have "map (\<lambda>k. float_bytes (data ! (k mod 2 ^ 32))) [0..<?m] =
        map (\<lambda>k. float_bytes (data ! k)) [0..<?m]"
    by (rule map_mod_upt [OF nowrap])
  also have "\<dots> = map float_bytes (map (\<lambda>k. data ! k) [0..<?m])"
    by (simp add: comp_def)
  also have "\<dots> = map float_bytes (take ?m data)"
    by (simp only: map_nth_take [OF assms(1)])
  finally show ?thesis
    by (simp add: packet_loop_full [OF assms(1)])
qed

lemma mute_iterations_add:
  "mute_step (iterations edl CH (m + n) res w) =
     (case mute_step (iterations edl CH m res w) of
        Continue r v \<Rightarrow> mute_step (iterations edl CH n r v)
      | Return r v \<Rightarrow> Return r v
      | Throw \<Rightarrow> Throw)"
proof (cases "iterations edl CH m res w")
  case (Continue r v)
  have "mute_step (iterations edl CH n r (mute v)) = mute_step (iterations edl CH n r v)"
    by (rule iterations_cong) simp_all
  with Continue show ?thesis by (simp add: iterations_add)
qed (simp_all add: iterations_add)

lemma short_iterations:
  assumes "dev w = 0"
  shows "mute_step (iterations edl_short 8 1000 r w) =
     Continue EdlNotEnoughAvailableDataError
       ((mute w)\<lparr>dev := 1000,
                 calls := calls w @ replicate 1000 GetDeviceStatus @ [ReadData 10],
                 slept := slept w + 999,
                 sink := sink w @ concat (replicate 40 (float_bytes 0x3F800000))\<rparr>)"
proof -
  have idle: "\<forall>i<999. \<exists>s. getDeviceStatus edl_short (dev w + i) = (EdlSuccess, s, Suc (dev w + i)) \<and>
             availableDataPackets s < MINIMUM_DATA_PACKETS_TO_READ"
    by (simp add: edl_short_def edl_idle_def MINIMUM_DATA_PACKETS_TO_READ_def assms)
  let ?v = "(mute w)\<lparr>dev := dev w + 999, calls := calls w @ replicate 999 GetDeviceStatus,
                 slept := slept w + 999\<rparr>"
  have first: "mute_step (iterations edl_short 8 999 r w) = Continue EdlSuccess ?v"
    using iterations_idle [OF idle, of 8 r] by simp
  have g: "getDeviceStatus edl_short (dev ?v) =
      (EdlSuccess, \<lparr>availableDataPackets = 10, bufferOverflowFlag = False, lostDataFlag = False\<rparr>, 1000)"
    by (simp add: edl_short_def edl_idle_def assms)
  have rd: "readData edl_short 10 1000 =
      (EdlNotEnoughAvailableDataError, 5, replicate 40 0x3F800000, 1000)"
    by (simp add: edl_short_def edl_idle_def)
  have pl: "packet_loop 8 (replicate 40 0x3F800000) 5 0 v =
      Some (v\<lparr>sink := sink v @ concat (replicate 40 (float_bytes 0x3F800000))\<rparr>)" for v :: "nat world"
    using packet_loop_take [of 5 8 "replicate 40 0x3F800000" v] by simp
  have r1000: "replicate 1000 GetDeviceStatus = replicate 999 GetDeviceStatus @ [GetDeviceStatus]"
    using replicate_add [of 999 1 GetDeviceStatus] by simp
  have last: "mute_step (iteration edl_short 8 ?v) =
     Continue EdlNotEnoughAvailableDataError
       ((mute w)\<lparr>dev := 1000,
                 calls := calls w @ replicate 1000 GetDeviceStatus @ [ReadData 10],
                 slept := slept w + 999,
                 sink := sink w @ concat (replicate 40 (float_bytes 0x3F800000))\<rparr>)"
    apply (simp only: mute_iteration [OF g])
    apply (simp add: rd pl MINIMUM_DATA_PACKETS_TO_READ_def mute_def assms r1000)
    done
  have "mute_step (iterations edl_short 8 (999 + 1) r w) =
      mute_step (iterations edl_short 8 1 EdlSuccess ?v)"
    by (simp only: mute_iterations_add first step.simps)
  also have "\<dots> = mute_step (iteration edl_short 8 ?v)"
    by (simp split: step.splits)
  finally show ?thesis
    by (simp only: last) simp
qed

lemma mute_readAndSaveSomeData:
  assumes purge: "purgeData edl (dev w) = (r, d0)"
  shows "map_option (map_prod id mute) (readAndSaveSomeData edl CH w) =
     (if r \<noteq> EdlSuccess then
        Some (r, (Sleep 500 (mute w))\<lparr>dev := d0, calls := calls w @ [PurgeData]\<rparr>)
      else
        (case mute_step (iterations edl CH 1000 r
                 ((Sleep 500 (mute w))\<lparr>dev := d0, calls := calls w @ [PurgeData]\<rparr>)) of
           Continue res v \<Rightarrow> Some (res, v)
         | Return res v \<Rightarrow> Some (res, v)
         | Throw \<Rightarrow> None))"
proof (cases "r = EdlSuccess")
  case False
  then show ?thesis
    by (simp add: readAndSaveSomeData_def edl_purgeData_def purge Let_def)
next
  case True
  let ?w1 = "cout [Str ''collecting data... '']
      ((cout [Str ''purge old data'', Endl] (Sleep 500 w))\<lparr>dev := d0,
         calls := calls w @ [PurgeData]\<rparr>)"
  let ?v1 = "(Sleep 500 (mute w))\<lparr>dev := d0, calls := calls w @ [PurgeData]\<rparr>"
  have m: "mute ?v1 = mute ?w1" by (simp add: mute_def Sleep_def cout_def)
  have it: "mute_step (iterations edl CH 1000 EdlSuccess ?v1) =
      mute_step (iterations edl CH 1000 EdlSuccess ?w1)"
    by (rule iterations_cong [OF _ _ _ _ m]) simp_all
  have pl: "poll_loop edl CH 0 EdlSuccess ?w1 = iterations edl CH 1000 EdlSuccess ?w1"
    using poll_loop_iterations [of 0 edl CH EdlSuccess ?w1] by simp
  have "readAndSaveSomeData edl CH w =
      (case iterations edl CH 1000 EdlSuccess ?w1 of
         Continue res w \<Rightarrow> Some (res, cout [Str ''done'', Endl] w)
       | Return res w \<Rightarrow> Some (res, w)
       | Throw \<Rightarrow> None)"
    by (simp add: readAndSaveSomeData_def edl_purgeData_def purge Let_def True pl)
  then show ?thesis
    unfolding True it by (simp split: step.splits)
qed

lemma short_run:
  assumes "dev w = 0"
  shows "map_option (map_prod id mute) (readAndSaveSomeData edl_short 8 w) =
     Some (EdlNotEnoughAvailableDataError,
       (mute w)\<lparr>dev := 1000,
                 calls := calls w @ PurgeData # replicate 1000 GetDeviceStatus @ [ReadData 10],
                 slept := slept w + 1499,
                 sink := sink w @ concat (replicate 40 (float_bytes 0x3F800000))\<rparr>)"
proof -
  have purge: "purgeData edl_short (dev w) = (EdlSuccess, 0)"
    by (simp add: edl_short_def edl_idle_def assms)
  let ?v1 = "(Sleep 500 (mute w))\<lparr>dev := 0, calls := calls w @ [PurgeData]\<rparr>"
  have "dev ?v1 = 0" by simp
  from short_iterations [OF this, of EdlSuccess] show ?thesis
    by (simp add: mute_readAndSaveSomeData [OF purge] Sleep_def mute_def)
qed

lemma muted_result:
  "map_option (map_prod id mute) x = Some (r, v) \<Longrightarrow> \<exists>w'. x = Some (r, w') \<and> mute w' = v"
  by (cases x) auto

subsection \<open>What a completed iteration leaves unchanged\<close>

lemma channel_loop_only_sink:
  "channel_loop CH data p c w = Some w' \<Longrightarrow> \<exists>bs. w' = w\<lparr>sink := sink w @ bs\<rparr>"
proof (induction CH data p c w rule: channel_loop.induct)
  case (1 CH data p c w)
  show ?case
  proof (cases "c < CH")
    case True
    with "1.prems" obtain x where x: "vector_at data (unat (p * CH + c)) = Some x"
      and rest: "channel_loop CH data p (c + 1) (fwrite x w) = Some w'"
      by (subst (asm) channel_loop.simps) (auto split: option.splits)
    from "1.IH" [OF True x rest] obtain bs where
      "w' = (fwrite x w)\<lparr>sink := sink (fwrite x w) @ bs\<rparr>" by blast
    then have "w' = w\<lparr>sink := sink w @ (float_bytes x @ bs)\<rparr>"
      by (simp add: fwrite_def)
    then show ?thesis by blast
  next
    case False
    with "1.prems" have "w' = w"
      by (subst (asm) channel_loop.simps) simp
    then have "w' = w\<lparr>sink := sink w @ []\<rparr>" by simp
    then show ?thesis by blast
  qed
qed

lemma packet_loop_only_sink:
  "packet_loop CH data n p w = Some w' \<Longrightarrow> \<exists>bs. w' = w\<lparr>sink := sink w @ bs\<rparr>"
proof (induction CH data n p w rule: packet_loop.induct)
  case (1 CH data n p w)
  show ?case
  proof (cases "p < n")
    case True
    with "1.prems" obtain v where v: "channel_loop CH data p 0 w = Some v"
      and rest: "packet_loop CH data n (p + 1) v = Some w'"
      by (subst (asm) packet_loop.simps) (auto split: option.splits)
    from channel_loop_only_sink [OF v] obtain bs where bs: "v = w\<lparr>sink := sink w @ bs\<rparr>"
      by blast
    from "1.IH" [OF True v rest] obtain cs where "w' = v\<lparr>sink := sink v @ cs\<rparr>"
      by blast
    with bs have "w' = w\<lparr>sink := sink w @ (bs @ cs)\<rparr>" by simp
    then show ?thesis by blast
  next
    case False
    with "1.prems" have "w' = w"
      by (subst (asm) packet_loop.simps) simp
    then have "w' = w\<lparr>sink := sink w @ []\<rparr>" by simp
    then show ?thesis by blast
  qed
qed

lemma mute_eqD:
  "mute w' = v \<Longrightarrow> closes w' = closes v \<and> sink w' = sink v \<and> dev w' = dev v \<and>
     calls w' = calls v \<and> slept w' = slept v"
  using mute_fields by metis

lemma iteration_Continue_fields:
  assumes "iteration edl CH w = Continue r w'"
  shows "closes w' = closes w" and "\<exists>bs. sink w' = sink w @ bs"
proof -
  obtain r0 s d1 where g: "getDeviceStatus edl (dev w) = (r0, s, d1)"
    by (cases "getDeviceStatus edl (dev w)") auto
  obtain rr n data d2 where rd: "readData edl (availableDataPackets s) d1 = (rr, n, data, d2)"
    by (cases "readData edl (availableDataPackets s) d1") auto
  from assms have m: "mute_step (iteration edl CH w) = Continue r (mute w')" by simp
  have "\<exists>v. mute w' = v \<and> closes v = closes w \<and> (\<exists>bs. sink v = sink w @ bs)"
  proof (cases "MINIMUM_DATA_PACKETS_TO_READ \<le> availableDataPackets s")
    case False
    with m have "mute w' = Sleep 1 ((mute w)\<lparr>dev := d1, calls := calls w @ [GetDeviceStatus]\<rparr>)"
      unfolding mute_iteration [OF g] by (simp split: if_splits)
    then show ?thesis by simp
  next
    case True
    let ?v = "(mute w)\<lparr>dev := d2,
         calls := calls w @ [GetDeviceStatus, ReadData (availableDataPackets s)]\<rparr>"
    from m True obtain v where pl: "packet_loop CH data n 0 ?v = Some v" and v: "mute w' = v"
      unfolding mute_iteration [OF g] by (auto simp: rd split: if_splits option.splits)
    from packet_loop_only_sink [OF pl] obtain bs where "v = ?v\<lparr>sink := sink ?v @ bs\<rparr>"
      by blast
    then have "closes v = closes w \<and> sink v = sink w @ bs" by simp
    with v show ?thesis by blast
  qed
  then obtain v where "mute w' = v" and c: "closes v = closes w" and s: "\<exists>bs. sink v = sink w @ bs"
    by blast
  from mute_eqD [OF this(1)] c s show "closes w' = closes w" and "\<exists>bs. sink w' = sink w @ bs"
    by simp_all
qed

lemma iterations_Continue_fields:
  "iterations edl CH n r0 w = Continue r w' \<Longrightarrow> closes w' = closes w \<and> (\<exists>bs. sink w' = sink w @ bs)"
proof (induction n arbitrary: r0 w)
  case 0
  then show ?case by simp
next
  case (Suc n)
  from Suc.prems obtain r1 v where it: "iteration edl CH w = Continue r1 v"
    and rest: "iterations edl CH n r1 v = Continue r w'"
    by (auto split: step.splits)
  from iteration_Continue_fields [OF it] Suc.IH [OF rest] show ?case by auto
qed

subsection \<open>Iterations that read\<close>

lemma iteration_read:
  assumes st: "getDeviceStatus edl (dev w) = (EdlSuccess, status, d1)"
    and k: "MINIMUM_DATA_PACKETS_TO_READ \<le> availableDataPackets status"
    and rd: "readData edl (availableDataPackets status) d1 = (rr, n, data, d2)"
    and rr: "rr \<noteq> EdlDeviceNotConnectedError"
    and len: "unat n * unat CH \<le> length data"
  shows "\<exists>w'. iteration edl CH w = Continue rr w' \<and>
     mute w' = (mute w)\<lparr>dev := d2,
        calls := calls w @ [GetDeviceStatus, ReadData (availableDataPackets status)],
        sink := sink w @
          concat (map (\<lambda>i. float_bytes (data ! (i mod 2 ^ 32))) [0..<unat n * unat CH])\<rparr>"
proof -
  have "mute_step (iteration edl CH w) =
      Continue rr ((mute w)\<lparr>dev := d2,
        calls := calls w @ [GetDeviceStatus, ReadData (availableDataPackets status)],
        sink := sink w @
          concat (map (\<lambda>i. float_bytes (data ! (i mod 2 ^ 32))) [0..<unat n * unat CH])\<rparr>)"
    by (simp add: mute_iteration [OF st] k rd rr packet_loop_full [OF len])
  then show ?thesis by (rule mute_step_Continue)
qed

lemma iteration_read_sink:
  assumes st: "getDeviceStatus edl (dev w) = (EdlSuccess, status, d1)"
    and k: "MINIMUM_DATA_PACKETS_TO_READ \<le> availableDataPackets status"
    and rd: "readData edl (availableDataPackets status) d1 = (rr, n, data, d2)"
    and rr: "rr \<noteq> EdlDeviceNotConnectedError"
    and len: "unat n * unat CH \<le> length data"
  shows "\<exists>w'. iteration edl CH w = Continue rr w' \<and>
     length (sink w') = length (sink w) + 4 * (unat n * unat CH) \<and>
     (unat n * unat CH \<le> 2 ^ 32 \<longrightarrow>
        sink w' = sink w @ concat (map float_bytes (take (unat n * unat CH) data))) \<and>
     closes w' = closes w \<and>
     calls w' = calls w @ [GetDeviceStatus, ReadData (availableDataPackets status)] \<and>
     dev w' = d2"
proof -
  let ?m = "unat n * unat CH"
  from iteration_read [OF st k rd rr len] obtain w' where
    it: "iteration edl CH w = Continue rr w'"
    and m: "mute w' = (mute w)\<lparr>dev := d2,
        calls := calls w @ [GetDeviceStatus, ReadData (availableDataPackets status)],
        sink := sink w @ concat (map (\<lambda>i. float_bytes (data ! (i mod 2 ^ 32))) [0..<?m])\<rparr>"
    by blast
  from mute_eqD [OF m] have
    s: "sink w' = sink w @ concat (map (\<lambda>i. float_bytes (data ! (i mod 2 ^ 32))) [0..<?m])"
    and c: "closes w' = closes w"
    and cl: "calls w' = calls w @ [GetDeviceStatus, ReadData (availableDataPackets status)]"
    and d: "dev w' = d2"
    by simp_all
  have l: "length (sink w') = length (sink w) + 4 * ?m"
    by (simp only: s length_append length_concat_float_bytes length_upt)
  have t: "sink w' = sink w @ concat (map float_bytes (take ?m data))" if nowrap: "?m \<le> 2 ^ 32"
  proof -
    have "map (\<lambda>i. float_bytes (data ! (i mod 2 ^ 32))) [0..<?m] =
        map (\<lambda>i. float_bytes (data ! i)) [0..<?m]"
      by (rule map_mod_upt [OF nowrap])
    also have "\<dots> = map float_bytes (map (\<lambda>i. data ! i) [0..<?m])"
      by (simp add: comp_def)
    also have "\<dots> = map float_bytes (take ?m data)"
      by (simp only: map_nth_take [OF len])
    finally show ?thesis by (simp only: s)
  qed
  from it l t c cl d show ?thesis by blast
qed


lemma poll_loop_step:
  "c < 1000 \<Longrightarrow> poll_loop edl CH c res w =
     (case iteration edl CH w of
        Continue r v \<Rightarrow> poll_loop edl CH (c + 1) r v
      | Return r v \<Rightarrow> Return r v
      | Throw \<Rightarrow> Throw)"
  by (subst poll_loop.simps) simp


lemma iteration_not_connected:
  assumes st: "getDeviceStatus edl (dev w) = (EdlSuccess, status, d1)"
    and k: "MINIMUM_DATA_PACKETS_TO_READ \<le> availableDataPackets status"
    and rd: "readData edl (availableDataPackets status) d1 = (EdlDeviceNotConnectedError, n, data, d2)"
  shows "\<exists>w'. iteration edl CH w = Return EdlDeviceNotConnectedError w' \<and>
     mute w' = fclose ((mute w)\<lparr>dev := d2,
        calls := calls w @ [GetDeviceStatus, ReadData (availableDataPackets status)]\<rparr>)"
proof -
  have "mute_step (iteration edl CH w) =
      Return EdlDeviceNotConnectedError (fclose ((mute w)\<lparr>dev := d2,
        calls := calls w @ [GetDeviceStatus, ReadData (availableDataPackets status)]\<rparr>))"
    by (simp add: mute_iteration [OF st] k rd)
  then show ?thesis by (rule mute_step_Return)
qed

lemma partial_read_body:
  assumes "getDeviceStatus edl (dev w) = (EdlSuccess, status, d1)"
    and "MINIMUM_DATA_PACKETS_TO_READ \<le> availableDataPackets status"
    and "readData edl (availableDataPackets status) d1 =
           (EdlNotEnoughAvailableDataError, m, data, d2)"
    and "m < availableDataPackets status"
    and "unat m * unat CH \<le> length data"
  shows "\<exists>w'. iteration edl CH w = Continue EdlNotEnoughAvailableDataError w' \<and>
     length (sink w') = length (sink w) + 4 * (unat m * unat CH) \<and>
     (unat m * unat CH \<le> 2 ^ 32 \<longrightarrow>
        sink w' = sink w @ concat (map float_bytes (take (unat m * unat CH) data))) \<and>
     closes w' = closes w \<and>
     (c < 999 \<longrightarrow>
        poll_loop edl CH c res w =
          (case iteration edl CH w' of
             Continue r v \<Rightarrow> poll_loop edl CH (c + 2) r v
           | Return r v \<Rightarrow> Return r v
           | Throw \<Rightarrow> Throw))"
proof -
  from iteration_read_sink [OF assms(1,2,3) _ assms(5)] obtain w' where
    it: "iteration edl CH w = Continue EdlNotEnoughAvailableDataError w'"
    and l: "length (sink w') = length (sink w) + 4 * (unat m * unat CH)"
    and t: "unat m * unat CH \<le> 2 ^ 32 \<longrightarrow>
        sink w' = sink w @ concat (map float_bytes (take (unat m * unat CH) data))"
    and cl: "closes w' = closes w"
    by auto
  have "poll_loop edl CH c res w =
          (case iteration edl CH w' of
             Continue r v \<Rightarrow> poll_loop edl CH (c + 2) r v
           | Return r v \<Rightarrow> Return r v
           | Throw \<Rightarrow> Throw)" if c: "c < 999"
  proof -
    from c have c0: "c < 1000" by (simp add: word_less_nat_alt)
    from c have "unat (c + 1) = Suc (unat c)" by (rule unat_succ_less)
    with c have c1: "c + 1 < 1000" by (simp add: word_less_nat_alt)
    have e: "c + 1 + 1 = c + 2" by simp
    show ?thesis
      by (simp only: poll_loop_step [OF c0] it step.case poll_loop_step [OF c1] e
          cong: step.case_cong)
  qed
  with it l t cl show ?thesis by blast
qed

subsection \<open>The disconnect loop\<close>

lemma disconnect_loop_step:
  "c < 1000 \<Longrightarrow> disconnect_loop edl c res w =
     (case edl_disconnectDevice edl w of (res, w) \<Rightarrow>
        if res = EdlSuccess then (res, cout [Str ''done'', Endl] w)
        else disconnect_loop edl (c + 1) res (Sleep 1 w))"
  by (subst disconnect_loop.simps) simp

lemma disconnect_loop_exit: "\<not> c < 1000 \<Longrightarrow> disconnect_loop edl c res w = (res, w)"
  by (subst disconnect_loop.simps) simp

lemma disconnect_loop_success:
  "unat c + j < 1000 \<Longrightarrow>
   \<forall>i<j. fst (disconnectDevice edl (after_disconnects edl i (dev w))) \<noteq> EdlSuccess \<Longrightarrow>
   fst (disconnectDevice edl (after_disconnects edl j (dev w))) = EdlSuccess \<Longrightarrow>
   fst (disconnect_loop edl c res w) = EdlSuccess \<and>
   calls (snd (disconnect_loop edl c res w)) = calls w @ replicate (Suc j) DisconnectDevice \<and>
   closes (snd (disconnect_loop edl c res w)) = closes w \<and>
   sink (snd (disconnect_loop edl c res w)) = sink w"
proof (induction j arbitrary: c res w)
  case 0
  then have c: "c < 1000" by (simp add: word_less_nat_alt)
  obtain r d where dd: "disconnectDevice edl (dev w) = (r, d)"
    by (cases "disconnectDevice edl (dev w)") auto
  with 0 have "r = EdlSuccess" by simp
  then show ?case
    by (simp add: disconnect_loop_step [OF c] edl_disconnectDevice_def dd)
next
  case (Suc j)
  then have c: "c < 1000" by (simp add: word_less_nat_alt)
  then have s: "unat (c + 1) = Suc (unat c)" by (rule unat_succ_less)
  obtain r d where dd: "disconnectDevice edl (dev w) = (r, d)"
    by (cases "disconnectDevice edl (dev w)") auto
  from Suc.prems(2) [rule_format, of 0] dd have r: "r \<noteq> EdlSuccess" by simp
  let ?v = "Sleep 1 (w\<lparr>dev := d, calls := calls w @ [DisconnectDevice]\<rparr>)"
  have budget: "unat (c + 1) + j < 1000" using Suc.prems(1) s by simp
  have fails: "\<forall>i<j. fst (disconnectDevice edl (after_disconnects edl i (dev ?v))) \<noteq> EdlSuccess"
  proof (intro allI impI)
    fix i assume "i < j"
    then have "Suc i < Suc j" by simp
    from Suc.prems(2) [rule_format, OF this] dd
    show "fst (disconnectDevice edl (after_disconnects edl i (dev ?v))) \<noteq> EdlSuccess" by simp
  qed
  have ok: "fst (disconnectDevice edl (after_disconnects edl j (dev ?v))) = EdlSuccess"
    using Suc.prems(3) dd by simp
  from Suc.IH [OF budget fails ok, of r] show ?case
    by (simp add: disconnect_loop_step [OF c] edl_disconnectDevice_def dd r)
qed

lemma disconnect_loop_exhausted:
  "unat c + n = 1000 \<Longrightarrow> 0 < n \<Longrightarrow>
   \<forall>i<n. fst (disconnectDevice edl (after_disconnects edl i (dev w))) \<noteq> EdlSuccess \<Longrightarrow>
   fst (disconnect_loop edl c res w) \<noteq> EdlSuccess \<and>
   calls (snd (disconnect_loop edl c res w)) = calls w @ replicate n DisconnectDevice \<and>
   closes (snd (disconnect_loop edl c res w)) = closes w \<and>
   sink (snd (disconnect_loop edl c res w)) = sink w"
proof (induction n arbitrary: c res w)
  case 0
  then show ?case by simp
next
  case (Suc n)
  then have c: "c < 1000" by (simp add: word_less_nat_alt)
  then have s: "unat (c + 1) = Suc (unat c)" by (rule unat_succ_less)
  obtain r d where dd: "disconnectDevice edl (dev w) = (r, d)"
    by (cases "disconnectDevice edl (dev w)") auto
  from Suc.prems(3) [rule_format, of 0] dd have r: "r \<noteq> EdlSuccess" by simp
  let ?v = "Sleep 1 (w\<lparr>dev := d, calls := calls w @ [DisconnectDevice]\<rparr>)"
  have budget: "unat (c + 1) + n = 1000" using Suc.prems(1) s by simp
  have fails: "\<forall>i<n. fst (disconnectDevice edl (after_disconnects edl i (dev ?v))) \<noteq> EdlSuccess"
  proof (intro allI impI)
    fix i assume "i < n"
    then have "Suc i < Suc n" by simp
    from Suc.prems(3) [rule_format, OF this] dd
    show "fst (disconnectDevice edl (after_disconnects edl i (dev ?v))) \<noteq> EdlSuccess" by simp
  qed
  show ?case
  proof (cases n)
    case 0
    with budget have "\<not> c + 1 < 1000" by (simp add: word_less_nat_alt)
    then show ?thesis
      using 0 by (simp add: disconnect_loop_step [OF c] edl_disconnectDevice_def dd r
          disconnect_loop_exit)
  next
    case (Suc m)
    then have "0 < n" by simp
    from Suc.IH [OF budget this fails, of r] show ?thesis
      by (simp add: disconnect_loop_step [OF c] edl_disconnectDevice_def dd r)
  qed
qed


lemma after_disconnects_stubborn: "after_disconnects (edl_stubborn j) i d = d + i"
  by (induction i arbitrary: d) (simp_all add: edl_stubborn_def)

subsection \<open>A partial read in the first iteration\<close>

lemma disconnect_first_try:
  assumes "fst (disconnectDevice edl (after_disconnects edl 0 (dev w))) = EdlSuccess"
  shows "fst (disconnecting edl res w) = 0"
proof -
  let ?w = "cout [Str ''disconnecting... ''] w"
  have "unat (0::uint) + 0 < 1000" by simp
  from disconnect_loop_success [OF this, of edl ?w res] assms
  have "fst (disconnect_loop edl 0 res ?w) = EdlSuccess" by simp
  then show ?thesis
    by (cases "disconnect_loop edl 0 res ?w") (simp add: disconnecting_def Let_def)
qed

lemma early_iterations:
  assumes "dev w = 0"
  shows "mute_step (iterations edl_early 8 1000 r w) =
     Continue EdlSuccess
       ((mute w)\<lparr>dev := 1000,
                 calls := calls w @ [GetDeviceStatus, ReadData 10] @ replicate 999 GetDeviceStatus,
                 slept := slept w + 999,
                 sink := sink w @ concat (replicate 40 (float_bytes 0x3F800000))\<rparr>)"
proof -
  have g: "getDeviceStatus edl_early (dev w) =
      (EdlSuccess, \<lparr>availableDataPackets = 10, bufferOverflowFlag = False, lostDataFlag = False\<rparr>, 1)"
    by (simp add: edl_early_def edl_idle_def assms)
  have rd: "readData edl_early 10 d =
      (EdlNotEnoughAvailableDataError, 5, replicate 40 0x3F800000, d)" for d
    by (simp add: edl_early_def edl_idle_def)
  have pl: "packet_loop 8 (replicate 40 0x3F800000) 5 0 v =
      Some (v\<lparr>sink := sink v @ concat (replicate 40 (float_bytes 0x3F800000))\<rparr>)" for v :: "nat world"
    using packet_loop_take [of 5 8 "replicate 40 0x3F800000" v] by simp
  let ?v = "(mute w)\<lparr>dev := 1, calls := calls w @ [GetDeviceStatus, ReadData 10],
              sink := sink w @ concat (replicate 40 (float_bytes 0x3F800000))\<rparr>"
  have first: "mute_step (iteration edl_early 8 w) = Continue EdlNotEnoughAvailableDataError ?v"
    apply (simp only: mute_iteration [OF g])
    apply (simp add: rd pl MINIMUM_DATA_PACKETS_TO_READ_def)
    done
  have idle: "\<forall>i<999. \<exists>s. getDeviceStatus edl_early (dev ?v + i) = (EdlSuccess, s, Suc (dev ?v + i)) \<and>
             availableDataPackets s < MINIMUM_DATA_PACKETS_TO_READ"
    by (simp add: edl_early_def edl_idle_def MINIMUM_DATA_PACKETS_TO_READ_def)
  have rest: "mute_step (iterations edl_early 8 999 EdlNotEnoughAvailableDataError ?v) =
     Continue EdlSuccess
       ((mute ?v)\<lparr>dev := dev ?v + 999, calls := calls ?v @ replicate 999 GetDeviceStatus,
                 slept := slept ?v + 999\<rparr>)"
    using iterations_idle [OF idle, of 8 EdlNotEnoughAvailableDataError] by simp
  have "mute_step (iterations edl_early 8 (Suc 999) r w) =
      mute_step (iterations edl_early 8 999 EdlNotEnoughAvailableDataError ?v)"
    by (simp only: mute_iterations_Suc first step.simps)
  then have "mute_step (iterations edl_early 8 1000 r w) =
      mute_step (iterations edl_early 8 999 EdlNotEnoughAvailableDataError ?v)"
    by simp
  then show ?thesis
    by (simp only: rest) (simp add: mute_def)
qed

lemma early_run:
  assumes "dev w = 0"
  shows "map_option (map_prod id mute) (readAndSaveSomeData edl_early 8 w) =
     Some (EdlSuccess,
       (mute w)\<lparr>dev := 1000,
                 calls := calls w @ PurgeData # [GetDeviceStatus, ReadData 10] @
                          replicate 999 GetDeviceStatus,
                 slept := slept w + 1499,
                 sink := sink w @ concat (replicate 40 (float_bytes 0x3F800000))\<rparr>)"
proof -
  have purge: "purgeData edl_early (dev w) = (EdlSuccess, 0)"
    by (simp add: edl_early_def edl_idle_def assms)
  let ?v1 = "(Sleep 500 (mute w))\<lparr>dev := 0, calls := calls w @ [PurgeData]\<rparr>"
  have "dev ?v1 = 0" by simp
  from early_iterations [OF this, of EdlSuccess] show ?thesis
    by (simp add: mute_readAndSaveSomeData [OF purge] Sleep_def mute_def)
qed

section \<open>The claims\<close>

subsection \<open>C1: the code returned when the iteration budget is used up\<close>

text \<open>
  C1 says that after 1000 iterations without a fatal error \<^verbatim>\<open>readAndSaveSomeData\<close>
  returns the result of the last status query, also when the last iteration performed a
  read. The function returns the variable \<^verbatim>\<open>res\<close>, which the read of the last
  iteration has overwritten. With the session \<open>edl_short\<close> the run makes 1000 status
  queries, each of which succeeds (the 1000th at session state 999), and one read, in the
  last iteration; the code returned is the insufficient-data code of that read, not the
  \<open>EdlSuccess\<close> of the last status query.
\<close>

theorem last_read_result_is_returned:
  "map_option (map_prod id calls) (readAndSaveSomeData edl_short 8 w_init) =
     Some (EdlNotEnoughAvailableDataError,
           PurgeData # replicate 1000 GetDeviceStatus @ [ReadData 10]) \<and>
   fst (getDeviceStatus edl_short 999) = EdlSuccess"
proof -
  have "dev w_init = 0" by (simp add: w_init_def)
  from muted_result [OF short_run [OF this]] obtain w' where
    run: "readAndSaveSomeData edl_short 8 w_init = Some (EdlNotEnoughAvailableDataError, w')"
    and w': "mute w' = (mute w_init)\<lparr>dev := 1000,
                 calls := calls w_init @ PurgeData # replicate 1000 GetDeviceStatus @ [ReadData 10],
                 slept := slept w_init + 1499,
                 sink := sink w_init @ concat (replicate 40 (float_bytes 0x3F800000))\<rparr>"
    by blast
  from w' have "calls (mute w') = PurgeData # replicate 1000 GetDeviceStatus @ [ReadData 10]"
    by (simp add: w_init_def)
  then have "map_option (map_prod id calls) (readAndSaveSomeData edl_short 8 w_init) =
     Some (EdlNotEnoughAvailableDataError,
           PurgeData # replicate 1000 GetDeviceStatus @ [ReadData 10])"
    by (simp add: run)
  moreover have "fst (getDeviceStatus edl_short 999) = EdlSuccess"
    by (simp add: edl_short_def edl_idle_def)
  ultimately show ?thesis by (rule conjI)
qed

subsection \<open>C2: the exit status\<close>

text \<open>
  C2 says that the exit status is 0 exactly for the fully successful runs, and that an
  insufficient-data read alone never makes it non-zero. With the session \<open>edl_short\<close>
  discovery, connection, purge and all 1000 status queries succeed and the only read, in
  the last iteration, reports insufficient data; \<^verbatim>\<open>main\<close> returns \<open>-1\<close>.
\<close>

theorem insufficient_data_in_last_iteration_fails_the_run:
  "map_option fst (main edl_short 8 cs_init w_init) = Some (- 1)"
proof -
  have det: "detectDevices edl_short (dev w_init) = (EdlSuccess, ''e4'' # [], 0)"
    by (simp add: edl_short_def edl_idle_def w_init_def)
  have con: "connectDevice edl_short ''e4'' 0 = (EdlSuccess, 0)"
    by (simp add: edl_short_def edl_idle_def)
  have set: "\<And>c p a d. setCommand edl_short c p a d = d"
    by (simp add: edl_short_def edl_idle_def)
  from main_reaches_acquisition [OF det con set, of 8 cs_init] obtain W where
    m: "main edl_short 8 cs_init w_init =
      (case readAndSaveSomeData edl_short 8 W of
         None \<Rightarrow> None
       | Some (res, w') \<Rightarrow>
           if res \<noteq> EdlSuccess then Some (- 1, cout [Str ''failed to read data'', Endl] w')
           else Some (disconnecting edl_short res (fclose w')))"
    and W: "dev W = 0"
    by blast
  from muted_result [OF short_run [OF W]] obtain w' where
    "readAndSaveSomeData edl_short 8 W = Some (EdlNotEnoughAvailableDataError, w')"
    by blast
  then show ?thesis
    by (simp add: m)
qed

subsection \<open>C3: closing the output file\<close>

text \<open>
  C3 says that the output file is closed exactly once on every exit path of the
  acquisition step. When \<^verbatim>\<open>purgeData\<close> fails (session \<open>edl_purge_fails\<close>) and
  when the first status query fails (session \<open>edl_status_fails\<close>),
  \<^verbatim>\<open>readAndSaveSomeData\<close> returns without \<^verbatim>\<open>fclose\<close> and \<^verbatim>\<open>main\<close>
  returns \<open>-1\<close> without it as well: the program ends with no \<^verbatim>\<open>fclose\<close> call
  at all.
\<close>

theorem sink_left_open_on_fatal_errors:
  "map_option (map_prod id closes) (main edl_purge_fails 8 cs_init w_init) = Some (- 1, 0) \<and>
   map_option (map_prod id closes) (main edl_status_fails 8 cs_init w_init) = Some (- 1, 0)"
proof
  have det: "detectDevices edl_purge_fails (dev w_init) = (EdlSuccess, ''e4'' # [], 0)"
    by (simp add: edl_purge_fails_def edl_idle_def w_init_def)
  have con: "connectDevice edl_purge_fails ''e4'' 0 = (EdlSuccess, 0)"
    by (simp add: edl_purge_fails_def edl_idle_def)
  have set: "\<And>c p a d. setCommand edl_purge_fails c p a d = d"
    by (simp add: edl_purge_fails_def edl_idle_def)
  from main_reaches_acquisition [OF det con set, of 8 cs_init] obtain W where
    m: "main edl_purge_fails 8 cs_init w_init =
      (case readAndSaveSomeData edl_purge_fails 8 W of
         None \<Rightarrow> None
       | Some (res, w') \<Rightarrow>
           if res \<noteq> EdlSuccess then Some (- 1, cout [Str ''failed to read data'', Endl] w')
           else Some (disconnecting edl_purge_fails res (fclose w')))"
    and W: "dev W = 0" "closes W = closes w_init"
    by blast
  have purge: "purgeData edl_purge_fails (dev W) = (EdlOtherError 1, 0)"
    by (simp add: edl_purge_fails_def edl_idle_def W)
  have "map_option (map_prod id mute) (readAndSaveSomeData edl_purge_fails 8 W) =
      Some (EdlOtherError 1, (Sleep 500 (mute W))\<lparr>dev := 0, calls := calls W @ [PurgeData]\<rparr>)"
    by (simp only: mute_readAndSaveSomeData [OF purge]) simp
  from muted_result [OF this] obtain w' where
    run: "readAndSaveSomeData edl_purge_fails 8 W = Some (EdlOtherError 1, w')"
    and w': "mute w' = (Sleep 500 (mute W))\<lparr>dev := 0, calls := calls W @ [PurgeData]\<rparr>"
    by blast
  from mute_eqD [OF w'] W have "closes w' = 0" by (simp add: w_init_def)
  then show "map_option (map_prod id closes) (main edl_purge_fails 8 cs_init w_init) = Some (- 1, 0)"
    by (simp add: m run)
next
  have det: "detectDevices edl_status_fails (dev w_init) = (EdlSuccess, ''e4'' # [], 0)"
    by (simp add: edl_status_fails_def edl_idle_def w_init_def)
  have con: "connectDevice edl_status_fails ''e4'' 0 = (EdlSuccess, 0)"
    by (simp add: edl_status_fails_def edl_idle_def)
  have set: "\<And>c p a d. setCommand edl_status_fails c p a d = d"
    by (simp add: edl_status_fails_def edl_idle_def)
  from main_reaches_acquisition [OF det con set, of 8 cs_init] obtain W where
    m: "main edl_status_fails 8 cs_init w_init =
      (case readAndSaveSomeData edl_status_fails 8 W of
         None \<Rightarrow> None
       | Some (res, w') \<Rightarrow>
           if res \<noteq> EdlSuccess then Some (- 1, cout [Str ''failed to read data'', Endl] w')
           else Some (disconnecting edl_status_fails res (fclose w')))"
    and W: "dev W = 0" "closes W = closes w_init"
    by blast
  have purge: "purgeData edl_status_fails (dev W) = (EdlSuccess, 0)"
    by (simp add: edl_status_fails_def edl_idle_def W)
  let ?v = "(Sleep 500 (mute W))\<lparr>dev := 0, calls := calls W @ [PurgeData]\<rparr>"
  have g: "getDeviceStatus edl_status_fails (dev ?v) =
      (EdlOtherError 2, \<lparr>availableDataPackets = 0, bufferOverflowFlag = False, lostDataFlag = False\<rparr>, 1)"
    by (simp add: edl_status_fails_def edl_idle_def)
  have "mute_step (iterations edl_status_fails 8 (Suc 999) EdlSuccess ?v) =
      Return (EdlOtherError 2) ((mute ?v)\<lparr>dev := 1, calls := calls ?v @ [GetDeviceStatus]\<rparr>)"
    by (simp only: mute_iterations_Suc mute_iteration [OF g]) simp
  then have it: "mute_step (iterations edl_status_fails 8 1000 EdlSuccess ?v) =
      Return (EdlOtherError 2) ((mute ?v)\<lparr>dev := 1, calls := calls ?v @ [GetDeviceStatus]\<rparr>)"
    by simp
  have "map_option (map_prod id mute) (readAndSaveSomeData edl_status_fails 8 W) =
      Some (EdlOtherError 2, (mute ?v)\<lparr>dev := 1, calls := calls ?v @ [GetDeviceStatus]\<rparr>)"
    by (simp only: mute_readAndSaveSomeData [OF purge] it) simp
  from muted_result [OF this] obtain w' where
    run: "readAndSaveSomeData edl_status_fails 8 W = Some (EdlOtherError 2, w')"
    and w': "mute w' = (mute ?v)\<lparr>dev := 1, calls := calls ?v @ [GetDeviceStatus]\<rparr>"
    by blast
  from mute_eqD [OF w'] W have "closes w' = 0" by (simp add: w_init_def)
  then show "map_option (map_prod id closes) (main edl_status_fails 8 cs_init w_init) = Some (- 1, 0)"
    by (simp add: m run)
qed

subsection \<open>C4: a full read\<close>

text \<open>
  C4. In an iteration where the status query succeeds and reports
  \<open>k \<ge> MINIMUM_DATA_PACKETS_TO_READ\<close> packets, and the read succeeds with
  \<open>readPacketsNum = k\<close> and a vector that holds the \<open>k * EDL_CHANNEL_NUM\<close> values of
  these packets, the body runs to its end and the file grows by exactly
  \<open>4 * (k * EDL_CHANNEL_NUM)\<close> bytes: \<open>k\<close> packets of \<open>EDL_CHANNEL_NUM\<close> values of four
  bytes. When the index arithmetic does not wrap (\<open>k * EDL_CHANNEL_NUM \<le> 2 ^ 32\<close>) these
  bytes are the first \<open>k * EDL_CHANNEL_NUM\<close> values of the vector, in order.
\<close>

theorem full_read_accounting:
  assumes "getDeviceStatus edl (dev w) = (EdlSuccess, status, d1)"
    and "MINIMUM_DATA_PACKETS_TO_READ \<le> availableDataPackets status"
    and "readData edl (availableDataPackets status) d1 =
           (EdlSuccess, availableDataPackets status, data, d2)"
    and "unat (availableDataPackets status) * unat CH \<le> length data"
  shows "\<exists>w'. iteration edl CH w = Continue EdlSuccess w' \<and>
     length (sink w') = length (sink w) + 4 * (unat (availableDataPackets status) * unat CH) \<and>
     (unat (availableDataPackets status) * unat CH \<le> 2 ^ 32 \<longrightarrow>
        sink w' = sink w @
          concat (map float_bytes (take (unat (availableDataPackets status) * unat CH) data)))"
  using iteration_read_sink [OF assms(1,2,3) _ assms(4)] by auto

text \<open>
  The theorem with \<open>k = 15\<close> and 8 channels: the file grows by \<open>15 * 8 * 4 = 480\<close>
  bytes.
\<close>

theorem full_read_accounting_witness:
  "\<exists>w'. iteration edl_full 8 w_init = Continue EdlSuccess w' \<and>
     length (sink w') = length (sink w_init) + 480 \<and>
     sink w' = sink w_init @ concat (replicate 120 (float_bytes 0x3F800000))"
proof -
  have st: "getDeviceStatus edl_full (dev w_init) =
      (EdlSuccess, \<lparr>availableDataPackets = 15, bufferOverflowFlag = False, lostDataFlag = False\<rparr>, 1)"
    by (simp add: edl_full_def edl_idle_def w_init_def)
  have rd: "readData edl_full
      (availableDataPackets \<lparr>availableDataPackets = 15, bufferOverflowFlag = False, lostDataFlag = False\<rparr>) 1 =
      (EdlSuccess,
       availableDataPackets \<lparr>availableDataPackets = 15, bufferOverflowFlag = False, lostDataFlag = False\<rparr>,
       replicate 120 0x3F800000, 1)"
    by (simp add: edl_full_def edl_idle_def)
  show ?thesis
    using full_read_accounting [OF st _ rd, of 8]
    by (simp add: MINIMUM_DATA_PACKETS_TO_READ_def)
qed

subsection \<open>C5: a partial read\<close>

text \<open>
  C5 says that in any iteration where the read reports insufficient data the packets
  returned are appended to the file and the loop goes on without aborting and without
  surfacing an error for that iteration. The two sessions \<open>edl_early\<close> and
  \<open>edl_short\<close> differ only in the iteration of their one read, which returns 5 of the
  10 packets requested with the insufficient-data code: the first iteration for
  \<open>edl_early\<close>, the last one for \<open>edl_short\<close>. In both runs the 5 packets (160 bytes)
  are written. With \<open>edl_early\<close> the code of the read is dropped:
  \<^verbatim>\<open>readAndSaveSomeData\<close> returns \<open>EdlSuccess\<close> and \<^verbatim>\<open>main\<close> returns 0.
  With \<open>edl_short\<close> the code of the read is what \<^verbatim>\<open>readAndSaveSomeData\<close> returns,
  and \<^verbatim>\<open>main\<close> returns \<open>-1\<close>: the error of that iteration is surfaced to the caller.
\<close>

theorem partial_read_surfaced_in_last_iteration:
  "map_option (map_prod id sink) (readAndSaveSomeData edl_early 8 w_init) =
     Some (EdlSuccess, concat (replicate 40 (float_bytes 0x3F800000))) \<and>
   map_option (map_prod id sink) (readAndSaveSomeData edl_short 8 w_init) =
     Some (EdlNotEnoughAvailableDataError, concat (replicate 40 (float_bytes 0x3F800000))) \<and>
   map_option fst (main edl_early 8 cs_init w_init) = Some 0 \<and>
   map_option fst (main edl_short 8 cs_init w_init) = Some (- 1)"
proof -
  have d0: "dev w_init = 0" by (simp add: w_init_def)
  from muted_result [OF early_run [OF d0]] obtain we where
    re: "readAndSaveSomeData edl_early 8 w_init = Some (EdlSuccess, we)"
    and we: "mute we = (mute w_init)\<lparr>dev := 1000,
                 calls := calls w_init @ PurgeData # [GetDeviceStatus, ReadData 10] @
                          replicate 999 GetDeviceStatus,
                 slept := slept w_init + 1499,
                 sink := sink w_init @ concat (replicate 40 (float_bytes 0x3F800000))\<rparr>"
    by blast
  from mute_eqD [OF we] have se: "sink we = concat (replicate 40 (float_bytes 0x3F800000))"
    by (simp add: w_init_def)
  from muted_result [OF short_run [OF d0]] obtain ws where
    rs: "readAndSaveSomeData edl_short 8 w_init = Some (EdlNotEnoughAvailableDataError, ws)"
    and ws: "mute ws = (mute w_init)\<lparr>dev := 1000,
                 calls := calls w_init @ PurgeData # replicate 1000 GetDeviceStatus @ [ReadData 10],
                 slept := slept w_init + 1499,
                 sink := sink w_init @ concat (replicate 40 (float_bytes 0x3F800000))\<rparr>"
    by blast
  from mute_eqD [OF ws] have ss: "sink ws = concat (replicate 40 (float_bytes 0x3F800000))"
    by (simp add: w_init_def)
  have early: "map_option fst (main edl_early 8 cs_init w_init) = Some 0"
  proof -
    have det: "detectDevices edl_early (dev w_init) = (EdlSuccess, ''e4'' # [], 0)"
      by (simp add: edl_early_def edl_idle_def w_init_def)
    have con: "connectDevice edl_early ''e4'' 0 = (EdlSuccess, 0)"
      by (simp add: edl_early_def edl_idle_def)
    have set: "\<And>c p a d. setCommand edl_early c p a d = d"
      by (simp add: edl_early_def edl_idle_def)
    from main_reaches_acquisition [OF det con set, of 8 cs_init] obtain W where
      m: "main edl_early 8 cs_init w_init =
        (case readAndSaveSomeData edl_early 8 W of
           None \<Rightarrow> None
         | Some (res, w') \<Rightarrow>
             if res \<noteq> EdlSuccess then Some (- 1, cout [Str ''failed to read data'', Endl] w')
             else Some (disconnecting edl_early res (fclose w')))"
      and W: "dev W = 0"
      by blast
    from muted_result [OF early_run [OF W]] obtain w' where
      r: "readAndSaveSomeData edl_early 8 W = Some (EdlSuccess, w')"
      by blast
    have ok: "fst (disconnectDevice edl_early (after_disconnects edl_early 0 (dev (fclose w')))) = EdlSuccess"
      by (simp add: edl_early_def edl_idle_def)
    have "fst (disconnecting edl_early EdlSuccess (fclose w')) = 0"
      using disconnect_first_try [OF ok, of EdlSuccess] by simp
    then show ?thesis by (simp add: m r)
  qed
  have late: "map_option fst (main edl_short 8 cs_init w_init) = Some (- 1)"
  proof -
    have det: "detectDevices edl_short (dev w_init) = (EdlSuccess, ''e4'' # [], 0)"
      by (simp add: edl_short_def edl_idle_def w_init_def)
    have con: "connectDevice edl_short ''e4'' 0 = (EdlSuccess, 0)"
      by (simp add: edl_short_def edl_idle_def)
    have set: "\<And>c p a d. setCommand edl_short c p a d = d"
      by (simp add: edl_short_def edl_idle_def)
    from main_reaches_acquisition [OF det con set, of 8 cs_init] obtain W where
      m: "main edl_short 8 cs_init w_init =
        (case readAndSaveSomeData edl_short 8 W of
           None \<Rightarrow> None
         | Some (res, w') \<Rightarrow>
             if res \<noteq> EdlSuccess then Some (- 1, cout [Str ''failed to read data'', Endl] w')
             else Some (disconnecting edl_short res (fclose w')))"
      and W: "dev W = 0"
      by blast
    from muted_result [OF short_run [OF W]] obtain w' where
      "readAndSaveSomeData edl_short 8 W = Some (EdlNotEnoughAvailableDataError, w')"
      by blast
    then show ?thesis by (simp add: m)
  qed
  from se ss early late show ?thesis by (simp add: re rs)
qed

subsection \<open>C6: the device is not connected on a read\<close>

text \<open>
  C6. Take a run of \<^verbatim>\<open>readAndSaveSomeData\<close> from the world \<open>w0\<close> in which the
  purge succeeds and the first \<open>i < 1000\<close> iterations run to their end, leaving the world
  \<open>w\<close>. If in the next iteration the status query succeeds with at least
  \<open>MINIMUM_DATA_PACKETS_TO_READ\<close> packets and the read reports that the device is not
  connected, then the function returns that error code at once: the read is the last call
  made on the session, the file is as it was at the beginning of that iteration, and
  \<^verbatim>\<open>fclose\<close> has been called exactly once since \<open>w0\<close>.
\<close>

theorem fatal_read_short_circuit:
  assumes purge: "edl_purgeData edl (cout [Str ''purge old data'', Endl] (Sleep 500 w0)) = (EdlSuccess, wp)"
    and i: "i < 1000"
    and prefix: "iterations edl CH i EdlSuccess (cout [Str ''collecting data... ''] wp) = Continue r w"
    and st: "getDeviceStatus edl (dev w) = (EdlSuccess, status, d1)"
    and k: "MINIMUM_DATA_PACKETS_TO_READ \<le> availableDataPackets status"
    and rd: "readData edl (availableDataPackets status) d1 =
           (EdlDeviceNotConnectedError, n, data, d2)"
  shows "\<exists>w'. readAndSaveSomeData edl CH w0 = Some (EdlDeviceNotConnectedError, w') \<and>
     sink w' = sink w \<and>
     closes w' = closes w0 + 1 \<and>
     calls w' = calls w @ [GetDeviceStatus, ReadData (availableDataPackets status)]"
proof -
  let ?w1 = "cout [Str ''collecting data... ''] wp"
  from iteration_not_connected [OF st k rd] obtain w' where
    it: "iteration edl CH w = Return EdlDeviceNotConnectedError w'"
    and m: "mute w' = fclose ((mute w)\<lparr>dev := d2,
        calls := calls w @ [GetDeviceStatus, ReadData (availableDataPackets status)]\<rparr>)"
    by blast
  from mute_eqD [OF m] have s: "sink w' = sink w" and c: "closes w' = closes w + 1"
    and cl: "calls w' = calls w @ [GetDeviceStatus, ReadData (availableDataPackets status)]"
    by simp_all
  from iterations_Continue_fields [OF prefix] have "closes w = closes ?w1" by simp
  moreover from purge have "closes wp = closes w0"
    by (auto simp: edl_purgeData_def split: prod.splits)
  ultimately have c0: "closes w' = closes w0 + 1" using c by simp
  from i have n: "1000 - unat (0::uint) = i + Suc (999 - i)" by simp
  have "poll_loop edl CH 0 EdlSuccess ?w1 = iterations edl CH (1000 - unat (0::uint)) EdlSuccess ?w1"
    by (rule poll_loop_iterations) simp
  then have "poll_loop edl CH 0 EdlSuccess ?w1 = iterations edl CH (i + Suc (999 - i)) EdlSuccess ?w1"
    by (simp only: n)
  also have "\<dots> = Return EdlDeviceNotConnectedError w'"
    by (simp only: iterations_add prefix step.case iterations.simps it)
  finally have "readAndSaveSomeData edl CH w0 = Some (EdlDeviceNotConnectedError, w')"
    by (simp add: readAndSaveSomeData_def purge Let_def)
  with s c0 cl show ?thesis by blast
qed

text \<open>
  The theorem with the session \<open>edl_unplugged\<close>: two idle iterations, then the read of
  the third one finds the device gone.
\<close>

theorem fatal_read_short_circuit_witness:
  "\<exists>w'. readAndSaveSomeData edl_unplugged 8 w_init = Some (EdlDeviceNotConnectedError, w') \<and>
     sink w' = [] \<and> closes w' = 1 \<and>
     calls w' = [PurgeData, GetDeviceStatus, GetDeviceStatus, GetDeviceStatus, ReadData 15]"
proof -
  let ?wp = "\<lparr>dev = 0, calls = [PurgeData], sink = [], closes = 0,
      out = [Str ''purge old data'', Endl], slept = 500\<rparr> :: nat world"
  let ?w = "\<lparr>dev = 2, calls = [PurgeData, GetDeviceStatus, GetDeviceStatus], sink = [], closes = 0,
      out = [Str ''purge old data'', Endl, Str ''collecting data... ''], slept = 502\<rparr> :: nat world"
  have purge: "edl_purgeData edl_unplugged (cout [Str ''purge old data'', Endl] (Sleep 500 w_init)) =
      (EdlSuccess, ?wp)"
    by (simp add: edl_purgeData_def edl_unplugged_def edl_idle_def w_init_def cout_def Sleep_def)
  have prefix: "iterations edl_unplugged 8 (Suc (Suc 0)) EdlSuccess
        (cout [Str ''collecting data... ''] ?wp) = Continue EdlSuccess ?w"
    by (simp add: iteration_def edl_getDeviceStatus_def edl_unplugged_def
        edl_idle_def MINIMUM_DATA_PACKETS_TO_READ_def cout_def Sleep_def)
  have st: "getDeviceStatus edl_unplugged (dev ?w) =
      (EdlSuccess, \<lparr>availableDataPackets = 15, bufferOverflowFlag = False, lostDataFlag = False\<rparr>, 3)"
    by (simp add: edl_unplugged_def edl_idle_def)
  have rd: "readData edl_unplugged
      (availableDataPackets \<lparr>availableDataPackets = 15, bufferOverflowFlag = False, lostDataFlag = False\<rparr>) 3 =
      (EdlDeviceNotConnectedError, 0, [], 3)"
    by (simp add: edl_unplugged_def edl_idle_def)
  show ?thesis
    using fatal_read_short_circuit [OF purge _ prefix st _ rd]
    by (simp add: MINIMUM_DATA_PACKETS_TO_READ_def w_init_def)
qed

subsection \<open>C7: the disconnect phase\<close>

text \<open>
  C7. If \<^verbatim>\<open>disconnectDevice\<close> fails the first \<open>j < 1000\<close> times and then succeeds,
  the disconnect phase makes exactly \<open>j + 1\<close> attempts and \<^verbatim>\<open>main\<close> returns 0; if
  it fails 1000 times in a row, the phase makes exactly 1000 attempts and \<^verbatim>\<open>main\<close>
  returns \<open>-1\<close>. The result of the \<open>i\<close>-th attempt is that of \<^verbatim>\<open>disconnectDevice\<close>
  on the session state \<open>after_disconnects edl i (dev w)\<close>.
\<close>

theorem disconnect_bound:
  "(j < 1000 \<and>
    (\<forall>i<j. fst (disconnectDevice edl (after_disconnects edl i (dev w))) \<noteq> EdlSuccess) \<and>
    fst (disconnectDevice edl (after_disconnects edl j (dev w))) = EdlSuccess \<longrightarrow>
      fst (disconnecting edl res w) = 0 \<and>
      calls (snd (disconnecting edl res w)) = calls w @ replicate (j + 1) DisconnectDevice) \<and>
   ((\<forall>i<1000. fst (disconnectDevice edl (after_disconnects edl i (dev w))) \<noteq> EdlSuccess) \<longrightarrow>
      fst (disconnecting edl res w) = - 1 \<and>
      calls (snd (disconnecting edl res w)) = calls w @ replicate 1000 DisconnectDevice)"
proof (intro conjI impI)
  let ?w = "cout [Str ''disconnecting... ''] w"
  assume a: "j < 1000 \<and>
    (\<forall>i<j. fst (disconnectDevice edl (after_disconnects edl i (dev w))) \<noteq> EdlSuccess) \<and>
    fst (disconnectDevice edl (after_disconnects edl j (dev w))) = EdlSuccess"
  then have "unat (0::uint) + j < 1000" by simp
  from disconnect_loop_success [OF this, of edl ?w res] a
  have "fst (disconnect_loop edl 0 res ?w) = EdlSuccess \<and>
   calls (snd (disconnect_loop edl 0 res ?w)) = calls w @ replicate (Suc j) DisconnectDevice"
    by simp
  then show "fst (disconnecting edl res w) = 0"
    and "calls (snd (disconnecting edl res w)) = calls w @ replicate (j + 1) DisconnectDevice"
    by (cases "disconnect_loop edl 0 res ?w"; simp add: disconnecting_def Let_def)+
next
  let ?w = "cout [Str ''disconnecting... ''] w"
  assume a: "\<forall>i<1000. fst (disconnectDevice edl (after_disconnects edl i (dev w))) \<noteq> EdlSuccess"
  have "unat (0::uint) + 1000 = 1000" by simp
  from disconnect_loop_exhausted [OF this, of edl ?w res] a
  have "fst (disconnect_loop edl 0 res ?w) \<noteq> EdlSuccess \<and>
   calls (snd (disconnect_loop edl 0 res ?w)) = calls w @ replicate 1000 DisconnectDevice"
    by simp
  then show "fst (disconnecting edl res w) = - 1"
    and "calls (snd (disconnecting edl res w)) = calls w @ replicate 1000 DisconnectDevice"
    by (cases "disconnect_loop edl 0 res ?w"; simp add: disconnecting_def Let_def)+
qed

text \<open>
  The theorem with a session whose first two attempts fail (three attempts, result 0) and
  with a session that never disconnects (1000 attempts, result \<open>-1\<close>).
\<close>

theorem disconnect_bound_witness:
  "fst (disconnecting (edl_stubborn 2) EdlSuccess w_init) = 0 \<and>
   calls (snd (disconnecting (edl_stubborn 2) EdlSuccess w_init)) = replicate 3 DisconnectDevice \<and>
   fst (disconnecting edl_stuck EdlSuccess w_init) = - 1 \<and>
   calls (snd (disconnecting edl_stuck EdlSuccess w_init)) = replicate 1000 DisconnectDevice"
proof -
  have "fst (disconnecting (edl_stubborn 2) EdlSuccess w_init) = 0 \<and>
    calls (snd (disconnecting (edl_stubborn 2) EdlSuccess w_init)) =
      calls w_init @ replicate (2 + 1) DisconnectDevice"
    using disconnect_bound [of 2 "edl_stubborn 2" w_init EdlSuccess, THEN conjunct1]
    by (simp add: after_disconnects_stubborn w_init_def) (simp add: edl_stubborn_def)
  moreover have "fst (disconnecting edl_stuck EdlSuccess w_init) = - 1 \<and>
    calls (snd (disconnecting edl_stuck EdlSuccess w_init)) =
      calls w_init @ replicate 1000 DisconnectDevice"
    using disconnect_bound [of 0 edl_stuck w_init EdlSuccess, THEN conjunct2]
    by (simp add: edl_stuck_def)
  ultimately show ?thesis
    by (simp add: w_init_def)
qed

subsection \<open>C8: the order of the commands\<close>

text \<open>
  C8. In the working-modality configuration and in the arming of the triangular protocol
  the session receives the \<^verbatim>\<open>setCommand\<close> calls in program order; every call but
  the last carries the apply flag \<open>False\<close>, and the last call, the only one with the flag
  \<open>True\<close>, comes after all the stacked ones. The session state after the phase is the
  result of these calls applied in that order.
\<close>

theorem command_order:
  "calls (configureWorkingModality edl cs w) = calls w @
     [SetCommand EdlCommandSamplingRate (cs\<lparr>radioId := EDL_RADIO_SAMPLING_RATE_5_KHZ\<rparr>) False,
      SetCommand EdlCommandRange (cs\<lparr>radioId := EDL_RADIO_RANGE_200_PA\<rparr>) False,
      SetCommand EdlCommandFinalBandwidth (cs\<lparr>radioId := EDL_RADIO_FINAL_BANDWIDTH_SR_2\<rparr>) True] \<and>
   map apply_flag (drop (length (calls w)) (calls (configureWorkingModality edl cs w))) =
     [False, False, True] \<and>
   dev (configureWorkingModality edl cs w) =
     setCommand edl EdlCommandFinalBandwidth (cs\<lparr>radioId := EDL_RADIO_FINAL_BANDWIDTH_SR_2\<rparr>) True
      (setCommand edl EdlCommandRange (cs\<lparr>radioId := EDL_RADIO_RANGE_200_PA\<rparr>) False
        (setCommand edl EdlCommandSamplingRate (cs\<lparr>radioId := EDL_RADIO_SAMPLING_RATE_5_KHZ\<rparr>) False
          (dev w))) \<and>
   calls (setTriangularProtocol edl cs w) = calls w @
     [SetCommand EdlCommandMainTrial (cs\<lparr>cs_value := 1\<rparr>) False,
      SetCommand EdlCommandVhold (cs\<lparr>cs_value := 0\<rparr>) False,
      SetCommand EdlCommandVamp (cs\<lparr>cs_value := 50\<rparr>) False,
      SetCommand EdlCommandTPeriod (cs\<lparr>cs_value := 100\<rparr>) False,
      SetCommand EdlCommandApplyProtocol (cs\<lparr>cs_value := 100\<rparr>) True] \<and>
   map apply_flag (drop (length (calls w)) (calls (setTriangularProtocol edl cs w))) =
     [False, False, False, False, True] \<and>
   dev (setTriangularProtocol edl cs w) =
     setCommand edl EdlCommandApplyProtocol (cs\<lparr>cs_value := 100\<rparr>) True
      (setCommand edl EdlCommandTPeriod (cs\<lparr>cs_value := 100\<rparr>) False
        (setCommand edl EdlCommandVamp (cs\<lparr>cs_value := 50\<rparr>) False
          (setCommand edl EdlCommandVhold (cs\<lparr>cs_value := 0\<rparr>) False
            (setCommand edl EdlCommandMainTrial (cs\<lparr>cs_value := 1\<rparr>) False (dev w)))))"
  by (simp add: configureWorkingModality_def setTriangularProtocol_def Let_def)

subsection \<open>C9: the advisory flags\<close>

text \<open>
  C9. Let two sessions answer every status query with the same result code, the same
  number of available packets and the same next session state, possibly with different
  values of \<^verbatim>\<open>bufferOverflowFlag\<close> and \<^verbatim>\<open>lostDataFlag\<close>, and let them
  answer purges and reads alike. Then \<^verbatim>\<open>readAndSaveSomeData\<close> does the same with
  both, up to the console output: it ends in the same way (the same returned code, or the
  exception in both runs), with the same bytes in the file, the same calls made on the
  session (so the same read requests), the same number of \<^verbatim>\<open>fclose\<close> calls.
\<close>

theorem advisory_flags_do_not_influence_output:
  assumes res: "\<And>d. fst (getDeviceStatus edl2 d) = fst (getDeviceStatus edl1 d)"
    and avail: "\<And>d. availableDataPackets (fst (snd (getDeviceStatus edl2 d))) =
                  availableDataPackets (fst (snd (getDeviceStatus edl1 d)))"
    and next_state: "\<And>d. snd (snd (getDeviceStatus edl2 d)) = snd (snd (getDeviceStatus edl1 d))"
    and reads: "readData edl2 = readData edl1"
    and purges: "purgeData edl2 = purgeData edl1"
  shows "map_option (map_prod id mute) (readAndSaveSomeData edl2 CH w) =
         map_option (map_prod id mute) (readAndSaveSomeData edl1 CH w) \<and>
         map_option fst (readAndSaveSomeData edl2 CH w) =
         map_option fst (readAndSaveSomeData edl1 CH w) \<and>
         map_option (sink \<circ> snd) (readAndSaveSomeData edl2 CH w) =
         map_option (sink \<circ> snd) (readAndSaveSomeData edl1 CH w) \<and>
         map_option (calls \<circ> snd) (readAndSaveSomeData edl2 CH w) =
         map_option (calls \<circ> snd) (readAndSaveSomeData edl1 CH w)"
proof -
  obtain r d0 where p1: "purgeData edl1 (dev w) = (r, d0)"
    by (cases "purgeData edl1 (dev w)") auto
  then have p2: "purgeData edl2 (dev w) = (r, d0)" by (simp add: purges)
  let ?v = "(Sleep 500 (mute w))\<lparr>dev := d0, calls := calls w @ [PurgeData]\<rparr>"
  have "mute_step (iterations edl2 CH 1000 r ?v) = mute_step (iterations edl1 CH 1000 r ?v)"
    by (rule iterations_cong [OF res avail next_state reads refl])
  then have eq: "map_option (map_prod id mute) (readAndSaveSomeData edl2 CH w) =
         map_option (map_prod id mute) (readAndSaveSomeData edl1 CH w)"
    by (simp only: mute_readAndSaveSomeData [OF p1] mute_readAndSaveSomeData [OF p2])
  have "map_option fst (map_option (map_prod id mute) (readAndSaveSomeData edl2 CH w)) =
        map_option fst (map_option (map_prod id mute) (readAndSaveSomeData edl1 CH w))"
    by (simp only: eq)
  then have e1: "map_option fst (readAndSaveSomeData edl2 CH w) =
         map_option fst (readAndSaveSomeData edl1 CH w)"
    by (simp add: option.map_comp comp_def)
  have "map_option (sink \<circ> snd) (map_option (map_prod id mute) (readAndSaveSomeData edl2 CH w)) =
        map_option (sink \<circ> snd) (map_option (map_prod id mute) (readAndSaveSomeData edl1 CH w))"
    by (simp only: eq)
  then have e2: "map_option (sink \<circ> snd) (readAndSaveSomeData edl2 CH w) =
         map_option (sink \<circ> snd) (readAndSaveSomeData edl1 CH w)"
    by (simp add: option.map_comp comp_def)
  have "map_option (calls \<circ> snd) (map_option (map_prod id mute) (readAndSaveSomeData edl2 CH w)) =
        map_option (calls \<circ> snd) (map_option (map_prod id mute) (readAndSaveSomeData edl1 CH w))"
    by (simp only: eq)
  then have e3: "map_option (calls \<circ> snd) (readAndSaveSomeData edl2 CH w) =
         map_option (calls \<circ> snd) (readAndSaveSomeData edl1 CH w)"
    by (simp add: option.map_comp comp_def)
  from eq e1 e2 e3 show ?thesis by blast
qed

text \<open>
  The theorem with \<open>edl_full\<close>, whose statuses have both flags clear, and
  \<open>edl_flagged\<close>, whose statuses have both flags set.
\<close>

theorem advisory_flags_do_not_influence_output_witness:
  "bufferOverflowFlag (fst (snd (getDeviceStatus edl_flagged 0))) \<and>
   lostDataFlag (fst (snd (getDeviceStatus edl_flagged 0))) \<and>
   \<not> bufferOverflowFlag (fst (snd (getDeviceStatus edl_full 0))) \<and>
   \<not> lostDataFlag (fst (snd (getDeviceStatus edl_full 0))) \<and>
   map_option (map_prod id mute) (readAndSaveSomeData edl_flagged 8 w_init) =
   map_option (map_prod id mute) (readAndSaveSomeData edl_full 8 w_init) \<and>
   map_option (sink \<circ> snd) (readAndSaveSomeData edl_flagged 8 w_init) =
   map_option (sink \<circ> snd) (readAndSaveSomeData edl_full 8 w_init) \<and>
   map_option (calls \<circ> snd) (readAndSaveSomeData edl_flagged 8 w_init) =
   map_option (calls \<circ> snd) (readAndSaveSomeData edl_full 8 w_init)"
  using advisory_flags_do_not_influence_output [of edl_flagged edl_full 8 w_init]
  by (simp add: edl_flagged_def edl_full_def edl_idle_def)

subsection \<open>C10: the elements read while persisting a batch\<close>




end
